theory Spec2Isabelle
  imports Complex_Main "HOL-Library.Word" "HOL-Library.AList" "HOL-Library.Sublist"
begin

unbundle bit_operations_syntax

section \<open>Data model\<close>

text \<open>
  A blob is Python \<^verbatim>\<open>bytes\<close>: a finite sequence of integers in \<open>0..255\<close>.
  Python integers are unbounded; indices, counts and lengths that never go negative
  are \<open>nat\<close>, accumulated values are \<open>int\<close>.
\<close>

type_synonym byte = "8 word"
type_synonym blob = "byte list"

text \<open>
  Exceptions raised by the decoders, as values. \<open>ValueError\<close> carries the message
  of the \<^verbatim>\<open>raise\<close> statement; \<open>OverflowError\<close> is what
  \<^verbatim>\<open>int.to_bytes\<close> raises; \<open>Diverges\<close> stands for a loop of the source
  that would never be left.
\<close>

datatype error = ValueError string | OverflowError | Diverges

section \<open>Simple decoders\<close>

subsection \<open>Run-length decoding\<close>

text \<open>
  \<^verbatim>\<open>decompress_rle\<close>: the loop \<^verbatim>\<open>while i < len(data) - 1\<close> with the index
  \<open>i\<close> and the output buffer as loop state. The comparison is made on \<open>int\<close>,
  since \<^verbatim>\<open>len(data) - 1\<close> is \<open>-1\<close> for the empty blob. There is no
  \<^verbatim>\<open>raise\<close> in the function, so its result is a plain blob.
\<close>

function rle_loop :: "blob \<Rightarrow> nat \<Rightarrow> blob \<Rightarrow> blob" where
  "rle_loop data i out =
     (if int i < int (length data) - 1 then
        (let count = unat (data ! i);
             val = data ! (i + 1);
             count = (if count = 0 then 256 else count)
         in rle_loop data (i + 2) (out @ replicate count val))
      else out)"
  by pat_completeness auto
termination
  by (relation "measure (\<lambda>(data, i, out). length data - i)") auto

declare rle_loop.simps [simp del]

definition decompress_rle :: "blob \<Rightarrow> blob" where
  "decompress_rle data = rle_loop data 0 []"

text \<open>The pairwise reading of the format, \<^verbatim>\<open>[count][byte][count][byte]...\<close>,
  used to describe what the loop computes.\<close>

fun rle_pairs :: "blob \<Rightarrow> blob" where
  "rle_pairs (c # v # rest) =
     replicate (if unat c = 0 then 256 else unat c) v @ rle_pairs rest"
| "rle_pairs _ = []"

text \<open>
  \<^verbatim>\<open>try_rle\<close> of \<^verbatim>\<open>main.py\<close>, the run-length decoder of the older probing
  script in the same directory: it raises on an unpaired last byte (and has no
  special case for a count of 0).
\<close>

function try_rle_loop :: "blob \<Rightarrow> nat \<Rightarrow> blob \<Rightarrow> error + blob" where
  "try_rle_loop data i out =
     (if i < length data then
        (if i + 1 \<ge> length data then Inl (ValueError ''Invalid RLE'')
         else
           (let count = unat (data ! i);
                val = data ! (i + 1)
            in try_rle_loop data (i + 2) (out @ replicate count val)))
      else Inr out)"
  by pat_completeness auto
termination
  by (relation "measure (\<lambda>(data, i, out). length data - i)") auto

declare try_rle_loop.simps [simp del]

definition try_rle :: "blob \<Rightarrow> error + blob" where
  "try_rle data = try_rle_loop data 0 []"

subsection \<open>Delta decoding\<close>

text \<open>\<^verbatim>\<open>decompress_delta\<close>: an 8-bit accumulator, \<^verbatim>\<open>acc = (acc + b) & 0xFF\<close>.\<close>

fun delta_loop :: "blob \<Rightarrow> byte \<Rightarrow> blob \<Rightarrow> blob" where
  "delta_loop [] acc out = out"
| "delta_loop (b # rest) acc out = delta_loop rest (acc + b) (out @ [acc + b])"

definition decompress_delta :: "blob \<Rightarrow> blob" where
  "decompress_delta data = delta_loop data 0 []"

subsection \<open>LZW\<close>

text \<open>
  \<^verbatim>\<open>decompress_lzw\<close>. The dictionary is a map from codes to phrases, first
  filled with the 256 single bytes. \<^verbatim>\<open>w[:1]\<close> is \<open>take 1 w\<close>.
\<close>

definition lzw_initial_dictionary :: "nat \<rightharpoonup> blob" where
  "lzw_initial_dictionary = (\<lambda>i. if i < 256 then Some [of_nat i] else None)"

fun lzw_loop :: "byte list \<Rightarrow> (nat \<rightharpoonup> blob) \<Rightarrow> nat \<Rightarrow> blob \<Rightarrow> blob \<Rightarrow> error + blob" where
  "lzw_loop [] dictionary dict_size w result = Inr result"
| "lzw_loop (k # ks) dictionary dict_size w result =
     (case (case dictionary (unat k) of
              Some e \<Rightarrow> Inr e
            | None \<Rightarrow> (if unat k = dict_size then Inr (w @ take 1 w)
                       else Inl (ValueError ''Invalid LZW code'')))
      of Inl e \<Rightarrow> Inl e
       | Inr entry \<Rightarrow>
           lzw_loop ks (dictionary(dict_size \<mapsto> w @ take 1 entry)) (dict_size + 1)
             entry (result @ entry))"

definition decompress_lzw :: "blob \<Rightarrow> error + blob" where
  "decompress_lzw data =
     (case data of
        [] \<Rightarrow> Inr []
      | c # code_stream \<Rightarrow> lzw_loop code_stream lzw_initial_dictionary 256 [c] [c])"

subsection \<open>Variable length quantities\<close>

text \<open>
  \<^verbatim>\<open>decompress_vlq\<close>. The inner loop reads one group and returns the value with the
  new position; the cap \<^verbatim>\<open>shift > 28\<close> is tested after the byte has been folded in
  and the shift advanced.
\<close>

function vlq_group :: "blob \<Rightarrow> nat \<Rightarrow> int \<Rightarrow> nat \<Rightarrow> int \<times> nat" where
  "vlq_group data pos val shift =
     (if pos < length data then
        (let b = data ! pos;
             pos' = pos + 1;
             val' = val OR push_bit shift (uint (b AND 0x7F));
             shift' = shift + 7
         in if b AND 0x80 = 0 then (val', pos')
            else if shift' > 28 then (val', pos')
            else vlq_group data pos' val' shift')
      else (val, pos))"
  by pat_completeness auto
termination
  by (relation "measure (\<lambda>(data, pos, val, shift). length data - pos)") auto

declare vlq_group.simps [simp del]

text \<open>\<^verbatim>\<open>value.to_bytes(4, 'little', signed=False)\<close>: raises when the value does
  not fit in four bytes.\<close>

definition to_bytes4 :: "int \<Rightarrow> error + blob" where
  "to_bytes4 v =
     (if v < 0 \<or> v \<ge> 2 ^ 32 then Inl OverflowError
      else Inr [word_of_int v, word_of_int (drop_bit 8 v),
                word_of_int (drop_bit 16 v), word_of_int (drop_bit 24 v)])"

lemma vlq_group_pos:
  "pos < length data \<Longrightarrow> pos < snd (vlq_group data pos val shift)"
proof (induction data pos val shift rule: vlq_group.induct)
  case (1 data pos val shift)
  show ?case
  proof (cases "data ! pos AND 0x80 = 0 \<or> shift + 7 > 28")
    case True
    with "1.prems" show ?thesis
      by (subst vlq_group.simps) (auto simp: Let_def)
  next
    case False
    show ?thesis
    proof (cases "pos + 1 < length data")
      case True
      with False "1.prems" "1.IH"[OF "1.prems" refl refl refl refl]
      have "pos + 1 < snd (vlq_group data (pos + 1)
              (val OR push_bit shift (uint (data ! pos AND 0x7F))) (shift + 7))"
        by simp
      with False "1.prems" show ?thesis
        by (subst vlq_group.simps) (auto simp: Let_def)
    next
      case F2: False
      have "vlq_group data (pos + 1)
              (val OR push_bit shift (uint (data ! pos AND 0x7F))) (shift + 7)
            = (val OR push_bit shift (uint (data ! pos AND 0x7F)), pos + 1)"
        using F2 by (subst vlq_group.simps) simp
      with False "1.prems" show ?thesis
        by (subst vlq_group.simps) (auto simp: Let_def)
    qed
  qed
qed

function vlq_loop :: "blob \<Rightarrow> nat \<Rightarrow> blob \<Rightarrow> error + blob" where
  "vlq_loop data pos result =
     (if pos < length data then
        (case to_bytes4 (fst (vlq_group data pos 0 0)) of
           Inl e \<Rightarrow> Inl e
         | Inr bs \<Rightarrow> vlq_loop data (snd (vlq_group data pos 0 0)) (result @ bs))
      else Inr result)"
  by pat_completeness auto
termination
proof (relation "measure (\<lambda>(data, pos, result). length data - pos)")
  show "wf (measure (\<lambda>(data, pos, result). length data - pos))" by simp
next
  fix data :: blob and pos :: nat and result x2 :: blob
  assume "pos < length data"
  then show "((data, snd (vlq_group data pos 0 0), result @ x2), (data, pos, result))
               \<in> measure (\<lambda>(data, pos, result). length data - pos)"
    using vlq_group_pos [of pos data 0 0] by simp
qed

declare vlq_loop.simps [simp del]

definition decompress_vlq :: "blob \<Rightarrow> error + blob" where
  "decompress_vlq data = vlq_loop data 0 []"

subsection \<open>LZ77\<close>

text \<open>
  \<^verbatim>\<open>decompress_lz77\<close>. The copy loop of a reference, the loop over the eight flag
  bits of a frame (its \<^verbatim>\<open>break\<close>s leave the frame, not the decoder), and the
  loop over frames.
\<close>

fun lz77_copy :: "nat \<Rightarrow> nat \<Rightarrow> blob \<Rightarrow> blob" where
  "lz77_copy 0 start_pos result = result"
| "lz77_copy (Suc n) start_pos result =
     (if start_pos < length result
      then lz77_copy n (start_pos + 1) (result @ [result ! start_pos])
      else result)"

fun lz77_frame :: "blob \<Rightarrow> byte \<Rightarrow> nat list \<Rightarrow> nat \<Rightarrow> blob \<Rightarrow> nat \<times> blob" where
  "lz77_frame data flag [] pos result = (pos, result)"
| "lz77_frame data flag (i # rest) pos result =
     (if pos \<ge> length data then (pos, result)
      else if drop_bit (7 - i) flag AND 1 \<noteq> 0 then
        (if pos < length data
         then lz77_frame data flag rest (pos + 1) (result @ [data ! pos])
         else lz77_frame data flag rest pos result)
      else if pos + 2 \<ge> length data then (pos, result)
      else
        (let offset = push_bit 8 (unat (data ! pos)) OR unat (data ! (pos + 1));
             len = unat (data ! (pos + 2));
             pos' = pos + 3
         in if offset = 0 \<or> offset > length result then (pos', result)
            else lz77_frame data flag rest pos'
                   (lz77_copy len (length result - offset) result)))"

lemma lz77_frame_pos: "pos \<le> fst (lz77_frame data flag bits pos result)"
proof (induction bits arbitrary: pos result)
  case Nil
  show ?case by simp
next
  case (Cons i rest)
  have a: "pos \<le> fst (lz77_frame data flag rest (pos + 1) (result @ [data ! pos]))"
    using Cons [of "pos + 1" "result @ [data ! pos]"] by simp
  have b: "\<And>r. pos \<le> fst (lz77_frame data flag rest (pos + 3) r)"
    subgoal for r using Cons [of "pos + 3" r] by simp
    done
  show ?case using a b Cons [of pos result] by (simp add: Let_def)
qed

function lz77_loop :: "blob \<Rightarrow> nat \<Rightarrow> blob \<Rightarrow> blob" where
  "lz77_loop data pos result =
     (if pos < length data then
        (let flag = data ! pos;
             fr = lz77_frame data flag [0..<8] (pos + 1) result
         in lz77_loop data (fst fr) (snd fr))
      else result)"
  by pat_completeness auto
termination
proof (relation "measure (\<lambda>(data, pos, result). length data - pos)")
  show "wf (measure (\<lambda>(data, pos, result). length data - pos))" by simp
next
  fix data :: blob and pos :: nat and result :: blob and x :: byte and xa :: "nat \<times> blob"
  assume "pos < length data" and "xa = lz77_frame data x [0..<8] (pos + 1) result"
  then show "((data, fst xa, snd xa), (data, pos, result))
               \<in> measure (\<lambda>(data, pos, result). length data - pos)"
    using lz77_frame_pos [of "pos + 1" data x "[0..<8]" result]
    by (simp add: case_prod_unfold)
qed

declare lz77_loop.simps [simp del]

definition decompress_lz77 :: "blob \<Rightarrow> blob" where
  "decompress_lz77 data = lz77_loop data 0 []"

section \<open>Bit-stream reader\<close>

text \<open>
  \<^verbatim>\<open>class BitStream\<close>: the blob and the three mutable fields \<^verbatim>\<open>pos\<close>,
  \<^verbatim>\<open>bit_pos\<close> and \<^verbatim>\<open>current_byte\<close> (the fields carry the prefix \<open>bs_\<close>
  here). Every method takes the state and returns it updated. \<^verbatim>\<open>bit_pos\<close> is only
  ever assigned \<open>0\<close> or \<^verbatim>\<open>(bit_pos + 1) % 8\<close>, so the shift amount \<open>7 - bit_pos\<close>
  is never negative.
\<close>

record BitStream =
  bs_data :: blob
  bs_pos :: nat
  bs_bit_pos :: nat
  bs_current_byte :: byte

definition BitStream_init :: "blob \<Rightarrow> BitStream" where
  "BitStream_init data =
     \<lparr>bs_data = data, bs_pos = 0, bs_bit_pos = 0, bs_current_byte = 0\<rparr>"

definition has_bits :: "BitStream \<Rightarrow> nat \<Rightarrow> bool" where
  "has_bits bs count \<longleftrightarrow> bs_pos bs * 8 + bs_bit_pos bs + count \<le> length (bs_data bs) * 8"

definition read_bit :: "BitStream \<Rightarrow> int \<times> BitStream" where
  "read_bit bs =
     (if \<not> has_bits bs 1 then (0, bs)
      else
        (let bs1 = (if bs_bit_pos bs = 0
                    then bs\<lparr>bs_current_byte := bs_data bs ! bs_pos bs,
                            bs_pos := bs_pos bs + 1\<rparr>
                    else bs);
             b = uint (drop_bit (7 - bs_bit_pos bs1) (bs_current_byte bs1) AND 1);
             bs2 = bs1\<lparr>bs_bit_pos := (bs_bit_pos bs1 + 1) mod 8\<rparr>
         in (b, bs2)))"

text \<open>\<^verbatim>\<open>read_bits\<close>: \<^verbatim>\<open>for _ in range(count): result = (result << 1) | self.read_bit()\<close>.\<close>

fun read_bits_loop :: "nat \<Rightarrow> int \<Rightarrow> BitStream \<Rightarrow> int \<times> BitStream" where
  "read_bits_loop 0 result bs = (result, bs)"
| "read_bits_loop (Suc n) result bs =
     (let r = read_bit bs in read_bits_loop n (push_bit 1 result OR fst r) (snd r))"

definition read_bits :: "BitStream \<Rightarrow> nat \<Rightarrow> int \<times> BitStream" where
  "read_bits bs count = read_bits_loop count 0 bs"

text \<open>\<^verbatim>\<open>peek_bits\<close>: save the three fields, read, write the saved fields back.\<close>

definition peek_bits :: "BitStream \<Rightarrow> nat \<Rightarrow> int \<times> BitStream" where
  "peek_bits bs count =
     (let old_pos = bs_pos bs;
          old_bit_pos = bs_bit_pos bs;
          old_current = bs_current_byte bs;
          r = read_bits bs count
      in (fst r, (snd r)\<lparr>bs_pos := old_pos, bs_bit_pos := old_bit_pos,
                         bs_current_byte := old_current\<rparr>))"

text \<open>
  The states a client can bring a stream into: the initial one, and any state after a
  call of \<^verbatim>\<open>read_bit\<close> or \<^verbatim>\<open>read_bits\<close>. \<open>consumed\<close> counts the bits
  that were delivered from the blob on the way: a call of \<^verbatim>\<open>read_bit\<close> delivers
  one exactly when it passes its \<^verbatim>\<open>has_bits\<close> guard.
\<close>

datatype bs_op = ReadBit | ReadBits nat

fun consumed_bits :: "nat \<Rightarrow> BitStream \<Rightarrow> nat" where
  "consumed_bits 0 bs = 0"
| "consumed_bits (Suc n) bs =
     (if has_bits bs 1 then 1 else 0) + consumed_bits n (snd (read_bit bs))"

fun run_ops :: "bs_op list \<Rightarrow> nat \<times> BitStream \<Rightarrow> nat \<times> BitStream" where
  "run_ops [] cs = cs"
| "run_ops (ReadBit # ops) (c, bs) =
     run_ops ops (c + (if has_bits bs 1 then 1 else 0), snd (read_bit bs))"
| "run_ops (ReadBits n # ops) (c, bs) =
     run_ops ops (c + consumed_bits n bs, snd (read_bits bs n))"

text \<open>
  How the cursor relates to the number \<open>c\<close> of bits consumed: \<^verbatim>\<open>read_bit\<close>
  increments \<^verbatim>\<open>pos\<close> when it loads a byte, so at a byte boundary
  \<open>8 * pos + bit_pos\<close> is \<open>c\<close>, and inside a byte it is \<open>c + 8\<close>.
\<close>

definition cursor_inv :: "nat \<Rightarrow> BitStream \<Rightarrow> bool" where
  "cursor_inv c bs \<longleftrightarrow>
     bs_bit_pos bs < 8
     \<and> 8 * bs_pos bs + bs_bit_pos bs = c + (if bs_bit_pos bs = 0 then 0 else 8)"

section \<open>Canonical Huffman code generator\<close>

text \<open>
  \<^verbatim>\<open>_generate_canonical_huffman_codes\<close>. Both dictionaries are association lists
  in insertion order, as a Python \<^verbatim>\<open>dict\<close> keeps them: \<open>AList.update\<close> replaces
  the value of a key in place and appends a new key at the end. A code table maps a
  symbol to \<open>(code, length)\<close>.
\<close>

type_synonym code_table = "(nat \<times> (int \<times> nat)) list"

definition group_by_length :: "nat list \<Rightarrow> (nat \<times> nat list) list" where
  "group_by_length bit_lengths =
     fold (\<lambda>(symbol, len) length_groups.
             if len > 0 then
               (case map_of length_groups len of
                  None \<Rightarrow> AList.update len [symbol] length_groups
                | Some g \<Rightarrow> AList.update len (g @ [symbol]) length_groups)
             else length_groups)
          (enumerate 0 bit_lengths) []"

fun assign_symbols :: "nat list \<Rightarrow> nat \<Rightarrow> int \<Rightarrow> code_table \<Rightarrow> int \<times> code_table" where
  "assign_symbols [] len code codes = (code, codes)"
| "assign_symbols (symbol # rest) len code codes =
     assign_symbols rest len (code + 1) (AList.update symbol (code, len) codes)"

text \<open>The loop over the sorted lengths; \<^verbatim>\<open>code <<= 1\<close> once after each group.\<close>

fun assign_lengths ::
  "nat list \<Rightarrow> (nat \<times> nat list) list \<Rightarrow> int \<Rightarrow> code_table \<Rightarrow> code_table" where
  "assign_lengths [] length_groups code codes = codes"
| "assign_lengths (len # rest) length_groups code codes =
     (let group = (case map_of length_groups len of Some g \<Rightarrow> g | None \<Rightarrow> []);
          r = assign_symbols (sort group) len code codes
      in assign_lengths rest length_groups (push_bit 1 (fst r)) (snd r))"

definition generate_canonical_huffman_codes :: "nat list \<Rightarrow> code_table" where
  "generate_canonical_huffman_codes bit_lengths =
     (let length_groups = group_by_length bit_lengths
      in assign_lengths (sort (map fst length_groups)) length_groups 0 [])"

text \<open>
  The Kraft sum of a length vector over its present symbols, the bit string of an
  assigned pair (the \<open>len\<close> low bits of the code, most significant first), and the
  pairs of distinct symbols of a table where the first bit string is a prefix of the
  second. A table is prefix-free exactly when it has no such pair.
\<close>

definition kraft_sum :: "nat list \<Rightarrow> rat" where
  "kraft_sum bit_lengths = (\<Sum>l\<leftarrow>bit_lengths. if l > 0 then 1 / 2 ^ l else 0)"

definition code_bits :: "int \<Rightarrow> nat \<Rightarrow> bool list" where
  "code_bits code len = map (bit code) (rev [0..<len])"

definition prefix_clashes :: "code_table \<Rightarrow> (nat \<times> nat) list" where
  "prefix_clashes codes =
     [(fst a, fst b). a \<leftarrow> codes, b \<leftarrow> codes, fst a \<noteq> fst b,
        prefix (code_bits (fst (snd a)) (snd (snd a))) (code_bits (fst (snd b)) (snd (snd b)))]"

section \<open>Huffman decoders\<close>

text \<open>
  The symbol-matching loop that the three decoders share. The inner
  \<^verbatim>\<open>for symbol, (code_val, code_len) in codes.items()\<close> walks the table in
  insertion order and stops at the first entry whose code equals the peeked bits;
  only the standard decoder skips entries of length 0 (\<open>skip0\<close>).
\<close>

fun find_code :: "bool \<Rightarrow> code_table \<Rightarrow> BitStream \<Rightarrow> (nat \<times> nat) option \<times> BitStream" where
  "find_code skip0 [] bs = (None, bs)"
| "find_code skip0 ((symbol, (code_val, code_len)) # rest) bs =
     (if skip0 \<and> code_len = 0 then find_code skip0 rest bs
      else
        (let p = peek_bits bs code_len
         in if fst p = code_val then (Some (symbol, code_len), snd p)
            else find_code skip0 rest (snd p)))"

text \<open>
  Measure of progress of a stream: it grows by one with every bit that
  \<^verbatim>\<open>read_bit\<close> delivers and is bounded while \<^verbatim>\<open>has_bits\<close> holds.
\<close>

definition bs_progress :: "BitStream \<Rightarrow> nat" where
  "bs_progress bs =
     8 * bs_pos bs
       + (if bs_bit_pos bs = 0 then 8 else if bs_bit_pos bs < 8 then bs_bit_pos bs else 0)"

lemma read_bit_data: "bs_data (snd (read_bit bs)) = bs_data bs"
  by (simp add: read_bit_def Let_def)

lemma read_bits_loop_data: "bs_data (snd (read_bits_loop n r bs)) = bs_data bs"
  by (induction n arbitrary: r bs) (simp_all add: Let_def read_bit_data)

lemma peek_bits_state: "snd (peek_bits bs n) = bs"
  by (simp add: peek_bits_def Let_def read_bits_def read_bits_loop_data)

lemma find_code_state: "snd (find_code skip0 codes bs) = bs"
  by (induction skip0 codes bs rule: find_code.induct) (simp_all add: Let_def peek_bits_state)

lemma bit_pos_step:
  "b \<noteq> 0 \<Longrightarrow>
     (if b < 8 then b else 0)
       < (if Suc b mod 8 = 0 then 8 else if Suc b mod 8 < 8 then Suc b mod 8 else (0::nat))"
  by (simp split: if_splits) presburger

lemma read_bit_progress:
  "has_bits bs 1 \<Longrightarrow> bs_progress bs < bs_progress (snd (read_bit bs))"
proof (cases "bs_bit_pos bs = 0")
  case True
  assume "has_bits bs 1"
  with True show ?thesis by (simp add: read_bit_def bs_progress_def Let_def)
next
  case False
  assume "has_bits bs 1"
  with False bit_pos_step [OF False] show ?thesis
    by (auto simp: read_bit_def bs_progress_def Let_def split: if_splits)
qed

lemma read_bit_progress_le: "bs_progress bs \<le> bs_progress (snd (read_bit bs))"
  using read_bit_progress [of bs]
  by (cases "has_bits bs 1") (auto simp: read_bit_def less_imp_le)

lemma read_bits_loop_progress_le:
  "bs_progress bs \<le> bs_progress (snd (read_bits_loop n r bs))"
proof (induction n arbitrary: r bs)
  case 0
  show ?case by simp
next
  case (Suc n)
  have "bs_progress bs \<le> bs_progress (snd (read_bit bs))"
    by (rule read_bit_progress_le)
  also have "\<dots> \<le> bs_progress (snd (read_bits_loop n (push_bit 1 r OR fst (read_bit bs))
                                        (snd (read_bit bs))))"
    by (rule Suc)
  finally show ?case by (simp add: Let_def)
qed

lemma read_bits_progress:
  assumes "has_bits bs 1" and "n \<noteq> 0"
  shows "bs_progress bs < bs_progress (snd (read_bits bs n))"
proof -
  from assms(2) obtain m where n: "n = Suc m" by (cases n) auto
  have "bs_progress bs < bs_progress (snd (read_bit bs))"
    using assms(1) by (rule read_bit_progress)
  also have "\<dots> \<le> bs_progress (snd (read_bits_loop m (push_bit 1 0 OR fst (read_bit bs))
                                        (snd (read_bit bs))))"
    by (rule read_bits_loop_progress_le)
  finally show ?thesis by (simp add: read_bits_def n Let_def)
qed

lemma has_bits_progress: "has_bits bs 1 \<Longrightarrow> bs_progress bs < 8 * length (bs_data bs) + 8"
  by (auto simp: has_bits_def bs_progress_def)

text \<open>
  \<^verbatim>\<open>while bitstream.has_bits(): ...\<close>. A matched entry of length 0 would leave the
  cursor where it is and the source would append its symbol for ever: the model
  returns \<open>Diverges\<close>. \<^verbatim>\<open>result.append(symbol)\<close> raises for a symbol that is
  not a byte.
\<close>

function huffman_decode_loop ::
  "bool \<Rightarrow> code_table \<Rightarrow> BitStream \<Rightarrow> blob \<Rightarrow> error + blob" where
  "huffman_decode_loop skip0 codes bs result =
     (if has_bits bs 1 then
        (case fst (find_code skip0 codes bs) of
           None \<Rightarrow> Inr result
         | Some (symbol, code_len) \<Rightarrow>
             if code_len = 0 then Inl Diverges
             else if symbol \<ge> 256 then Inl (ValueError ''byte must be in range(0, 256)'')
             else huffman_decode_loop skip0 codes
                    (snd (read_bits (snd (find_code skip0 codes bs)) code_len))
                    (result @ [of_nat symbol]))
      else Inr result)"
  by pat_completeness auto
termination
proof (relation "measure (\<lambda>(skip0, codes, bs, result).
                   8 * length (bs_data bs) + 8 - bs_progress bs)")
  show "wf (measure (\<lambda>(skip0, codes, bs, result).
              8 * length (bs_data bs) + 8 - bs_progress bs))"
    by simp
next
  fix skip0 :: bool and codes :: code_table and bs :: BitStream and result :: blob
    and x2 :: "nat \<times> nat" and x y :: nat
  assume h: "has_bits bs 1" and n: "y \<noteq> 0"
  have "bs_progress bs < bs_progress (snd (read_bits bs y))"
    using h n by (rule read_bits_progress)
  moreover have "bs_progress bs < 8 * length (bs_data bs) + 8"
    using h by (rule has_bits_progress)
  moreover have "bs_data (snd (read_bits bs y)) = bs_data bs"
    by (simp add: read_bits_def read_bits_loop_data)
  ultimately show
    "((skip0, codes, snd (read_bits (snd (find_code skip0 codes bs)) y),
       result @ [word_of_nat x]), (skip0, codes, bs, result))
     \<in> measure (\<lambda>(skip0, codes, bs, result). 8 * length (bs_data bs) + 8 - bs_progress bs)"
    by (simp add: find_code_state)
qed

declare huffman_decode_loop.simps [simp del]

text \<open>\<^verbatim>\<open>_decompress_huffman_standard\<close> (the leading underscore of the three names
  is dropped). \<^verbatim>\<open>data[1:table_size+1]\<close> is \<open>take table_size (drop 1 data)\<close>.\<close>

definition decompress_huffman_standard :: "blob \<Rightarrow> error + blob" where
  "decompress_huffman_standard data =
     (if length data < 4 then Inl (ValueError ''Too short for standard Huffman'')
      else
        (let table_size = unat (data ! 0);
             table_size = (if table_size = 0 then min 256 (length data - 1) else table_size);
             code_lengths = map unat (take table_size (drop 1 data));
             code_lengths = code_lengths @ replicate (256 - length code_lengths) 0;
             huffman_codes = generate_canonical_huffman_codes code_lengths;
             bitstream = BitStream_init (drop (table_size + 1) data)
         in huffman_decode_loop True huffman_codes bitstream []))"

definition decompress_huffman_canonical :: "blob \<Rightarrow> error + blob" where
  "decompress_huffman_canonical data =
     (if length data < 2 then Inl (ValueError ''Too short for canonical Huffman'')
      else
        (let symbol_count = unat (data ! 0);
             symbol_count = (if symbol_count = 0 then min 256 (length data - 1)
                             else symbol_count);
             symbol_count = (if symbol_count > 256 then 256 else symbol_count);
             bit_lengths = map unat (take symbol_count (drop 1 data));
             codes = generate_canonical_huffman_codes bit_lengths;
             bitstream = BitStream_init (drop (symbol_count + 1) data)
         in huffman_decode_loop False codes bitstream []))"

text \<open>
  \<^verbatim>\<open>_decompress_huffman_simple\<close>: the table loop
  \<^verbatim>\<open>for symbol in range(256)\<close> with its \<^verbatim>\<open>break\<close>s and \<^verbatim>\<open>continue\<close>,
  returning the table and the position where the bit stream starts.
\<close>

fun simple_table :: "blob \<Rightarrow> nat list \<Rightarrow> nat \<Rightarrow> code_table \<Rightarrow> code_table \<times> nat" where
  "simple_table data [] pos huffman_codes = (huffman_codes, pos)"
| "simple_table data (symbol # rest) pos huffman_codes =
     (if pos \<ge> length data then (huffman_codes, pos)
      else
        (let bit_length = unat (data ! pos);
             pos1 = pos + 1
         in if bit_length = 0 \<or> bit_length > 24
            then simple_table data rest pos1 huffman_codes
            else
              (let byte_count = (bit_length + 7) div 8
               in if pos1 + byte_count > length data then (huffman_codes, pos1)
                  else
                    (let code = fold (\<lambda>i code. push_bit 8 code OR uint (data ! (pos1 + i)))
                                  [0..<byte_count] (0::int)
                     in simple_table data rest (pos1 + byte_count)
                          (AList.update symbol (code, bit_length) huffman_codes)))))"

definition decompress_huffman_simple :: "blob \<Rightarrow> error + blob" where
  "decompress_huffman_simple data =
     (if length data < 512 then Inl (ValueError ''Too short for simple Huffman'')
      else
        (let t = simple_table data [0..<256] 0 []
         in if fst t = [] then Inl (ValueError ''No valid Huffman codes found'')
            else huffman_decode_loop False (fst t) (BitStream_init (drop (snd t) data)) []))"

text \<open>\<^verbatim>\<open>decompress_huffman\<close>, the auto-detecting decoder: the first format whose
  decoder returns a non-empty result; a format that raises is passed over.\<close>

fun huffman_try_formats :: "(blob \<Rightarrow> error + blob) list \<Rightarrow> blob \<Rightarrow> error + blob" where
  "huffman_try_formats [] data = Inl (ValueError ''No valid Huffman format found'')"
| "huffman_try_formats (decompress_func # rest) data =
     (case decompress_func data of
        Inl e \<Rightarrow> huffman_try_formats rest data
      | Inr result \<Rightarrow> if length result > 0 then Inr result
                      else huffman_try_formats rest data)"

definition decompress_huffman :: "blob \<Rightarrow> error + blob" where
  "decompress_huffman data =
     (if length data < 16 then Inl (ValueError ''Data too short for Huffman compression'')
      else huffman_try_formats
             [decompress_huffman_canonical, decompress_huffman_standard,
              decompress_huffman_simple] data)"

section \<open>Plausibility scoring and the probe driver\<close>

text \<open>
  The scores are Python floats. Their arithmetic rounds, so it is not written out as
  arithmetic on reals: the operations that the source applies to floats are the
  fields of a record \<open>float_ops\<close> over a type \<open>'f\<close> of float values, and every
  function of this section takes the record as its first argument. \<open>f_lit\<close> is the
  value of a decimal literal, \<open>f_div\<close> the true division of two integers,
  \<open>f_log2\<close> is \<^verbatim>\<open>math.log2\<close>. Only two facts about floats are used: the literal
  \<^verbatim>\<open>0.0\<close> is the \<open>0\<close> of \<open>'f\<close>, and the values that arise (no NaN arises) are
  linearly ordered by \<^verbatim>\<open><\<close>. What is proved holds for every choice of the
  operations, the IEEE ones among them.
\<close>

record 'f float_ops =
  f_lit :: "rat \<Rightarrow> 'f"
  f_add :: "'f \<Rightarrow> 'f \<Rightarrow> 'f"
  f_sub :: "'f \<Rightarrow> 'f \<Rightarrow> 'f"
  f_mul :: "'f \<Rightarrow> 'f \<Rightarrow> 'f"
  f_div :: "nat \<Rightarrow> nat \<Rightarrow> 'f"
  f_log2 :: "'f \<Rightarrow> 'f"

text \<open>The operations in exact real arithmetic: one instance, used to run the driver
  on concrete blobs.\<close>

definition exact_ops :: "real float_ops" where
  "exact_ops =
     \<lparr>f_lit = of_rat, f_add = (+), f_sub = (-), f_mul = (*),
      f_div = (\<lambda>a b. real a / real b), f_log2 = log 2\<rparr>"

text \<open>The field \<^verbatim>\<open>method\<close> of an outcome is \<open>method_tag\<close> here.\<close>

record 'f DecompressionResult =
  method_tag :: string
  success :: bool
  decompressed_size :: nat
  original_size :: nat
  compression_ratio :: 'f
  confidence :: 'f
  entropy_original :: 'f
  entropy_decompressed :: 'f
  checksum_valid :: bool
  validation_msg :: string
  error :: "error option"
  decompressed_data :: "blob option"

record 'f AnalysisReport =
  file_path :: string
  file_size :: nat
  total_tests :: nat
  success_count :: nat
  failed_count :: nat
  best_method :: "string option"
  best_ratio :: 'f
  best_confidence :: 'f
  results :: "'f DecompressionResult list"

text \<open>\<^verbatim>\<open>calculate_entropy\<close>: the frequency table, then the sum over its 256 entries.\<close>

definition byte_frequencies :: "blob \<Rightarrow> nat list" where
  "byte_frequencies data =
     fold (\<lambda>b frequencies. frequencies[unat b := frequencies ! unat b + 1])
       data (replicate 256 0)"

definition calculate_entropy :: "'f::{linorder,zero} float_ops \<Rightarrow> blob \<Rightarrow> 'f" where
  "calculate_entropy fl data =
     (if length data = 0 then 0
      else fold (\<lambda>freq entropy.
                   if freq > 0 then
                     (let probability = f_div fl freq (length data)
                      in f_sub fl entropy (f_mul fl probability (f_log2 fl probability)))
                   else entropy)
             (byte_frequencies data) 0)"

text \<open>\<^verbatim>\<open>validate_decompressed_data\<close>; the messages are kept without the number
  that the source formats into them (the parameter
  \<^verbatim>\<open>original_size\<close> is \<open>orig_size\<close> here).\<close>

definition validate_decompressed_data ::
  "'f::{linorder,zero} float_ops \<Rightarrow> blob \<Rightarrow> nat \<Rightarrow> bool \<times> string" where
  "validate_decompressed_data fl data orig_size =
     (if length data = 0 then (False, ''Empty output'')
      else
        (let ratio = (if orig_size > 0 then f_div fl (length data) orig_size else 0)
         in if ratio > f_lit fl 100 then (False, ''Suspicious expansion ratio'')
            else if ratio < f_lit fl (1 / 2) then (False, ''Suspicious compression ratio'')
            else
              (let entropy = calculate_entropy fl data
               in if entropy < f_lit fl 1 then (False, ''Entropy too low'')
                  else
                    (let null_count = count_list data 0;
                         null_ratio = f_div fl null_count (length data)
                     in if null_ratio > f_lit fl (95 / 100)
                        then (False, ''Too many null bytes'')
                        else (True, ''Validation passed'')))))"

definition calculate_confidence ::
  "'f::{linorder,zero} float_ops \<Rightarrow> 'f DecompressionResult \<Rightarrow> 'f" where
  "calculate_confidence fl result =
     (if \<not> success result then 0
      else
        (let score = 0;
             score = (if f_lit fl (15 / 10) \<le> compression_ratio result
                         \<and> compression_ratio result \<le> f_lit fl 10
                      then f_add fl score (f_lit fl (3 / 10))
                      else if f_lit fl (12 / 10) \<le> compression_ratio result
                              \<and> compression_ratio result \<le> f_lit fl 15
                      then f_add fl score (f_lit fl (15 / 100)) else score);
             entropy_diff = f_sub fl (entropy_original result) (entropy_decompressed result);
             score = (if entropy_diff > f_lit fl 1 then f_add fl score (f_lit fl (3 / 10))
                      else if entropy_diff > f_lit fl (1 / 2)
                      then f_add fl score (f_lit fl (15 / 100)) else score);
             score = (if checksum_valid result then f_add fl score (f_lit fl (2 / 10))
                      else score);
             score = (if 1000 \<le> decompressed_size result
                         \<and> decompressed_size result \<le> 100000000
                      then f_add fl score (f_lit fl (2 / 10)) else score)
         in min (f_lit fl 1) score))"

text \<open>
  \<^verbatim>\<open>test_decompression\<close>. A decoder is a function that returns the blob or the
  exception it raised; the \<^verbatim>\<open>except Exception\<close> branch builds the failed outcome.
\<close>

definition test_decompression ::
  "'f::{linorder,zero} float_ops \<Rightarrow> blob \<Rightarrow> string \<Rightarrow> (blob \<Rightarrow> error + blob)
     \<Rightarrow> 'f DecompressionResult" where
  "test_decompression fl data method_name decompress_func =
     (let original_size = length data;
          entropy_original = calculate_entropy fl data
      in case decompress_func data of
           Inr decompressed \<Rightarrow>
             (let decompressed_size = length decompressed;
                  compression_ratio = (if original_size > 0
                                       then f_div fl decompressed_size original_size
                                       else 0);
                  entropy_decompressed = calculate_entropy fl decompressed;
                  v = validate_decompressed_data fl decompressed original_size;
                  result = \<lparr>method_tag = method_name, success = True,
                            decompressed_size = decompressed_size,
                            original_size = original_size,
                            compression_ratio = compression_ratio,
                            confidence = 0,
                            entropy_original = entropy_original,
                            entropy_decompressed = entropy_decompressed,
                            checksum_valid = fst v, validation_msg = snd v,
                            error = None, decompressed_data = Some decompressed\<rparr>
              in result\<lparr>confidence := calculate_confidence fl result\<rparr>)
         | Inl e \<Rightarrow>
             \<lparr>method_tag = method_name, success = False, decompressed_size = 0,
              original_size = original_size, compression_ratio = 0, confidence = 0,
              entropy_original = entropy_original, entropy_decompressed = 0,
              checksum_valid = False, validation_msg = ''Decompression failed'',
              error = Some e, decompressed_data = None\<rparr>)"

text \<open>
  Python's \<^verbatim>\<open>max(iterable, key=...)\<close> with the key
  \<^verbatim>\<open>(r.confidence, r.compression_ratio)\<close>: the running maximum is replaced only by
  an item whose key is strictly greater, tuples being compared lexicographically.
\<close>

definition selection_key :: "'f DecompressionResult \<Rightarrow> 'f \<times> 'f" where
  "selection_key r = (confidence r, compression_ratio r)"

definition tuple_greater :: "'f::linorder \<times> 'f \<Rightarrow> 'f \<times> 'f \<Rightarrow> bool" where
  "tuple_greater a b \<longleftrightarrow> fst a > fst b \<or> (fst a = fst b \<and> snd a > snd b)"

fun max_loop ::
  "'f::linorder DecompressionResult \<Rightarrow> 'f DecompressionResult list
     \<Rightarrow> 'f DecompressionResult" where
  "max_loop best [] = best"
| "max_loop best (r # rs) =
     max_loop (if tuple_greater (selection_key r) (selection_key best) then r else best) rs"

text \<open>
  \<^verbatim>\<open>analyze_file\<close>, from the blob that was read: \<open>data\<close> is the content of the
  file (or of the requested slice) and \<open>algorithms\<close> the registry, which depends on
  the libraries of the host. Writing the decompressed files is left out.
\<close>

definition analyze_file ::
  "'f::{linorder,zero} float_ops \<Rightarrow> string \<Rightarrow> blob
     \<Rightarrow> (string \<times> (blob \<Rightarrow> error + blob)) list \<Rightarrow> 'f AnalysisReport" where
  "analyze_file fl path data algorithms =
     (let results = map (\<lambda>(method_name, decompress_func).
                          test_decompression fl data method_name decompress_func) algorithms;
          successful_results = filter (\<lambda>r. success r \<and> checksum_valid r) results;
          best = (case successful_results of
                    [] \<Rightarrow> (None, 0, 0)
                  | r # rs \<Rightarrow>
                      (let b = max_loop r rs
                       in (Some (method_tag b), compression_ratio b, confidence b)))
      in \<lparr>file_path = path, file_size = length data, total_tests = length results,
          success_count = length (filter success results),
          failed_count = length (filter (\<lambda>r. \<not> success r) results),
          best_method = fst best, best_ratio = fst (snd best),
          best_confidence = snd (snd best), results = results\<rparr>)"

section \<open>Well-formed code tables\<close>

text \<open>
  Predicates on tables used to show that the decoding loop is always left: the
  symbols of a table are bytes and no entry that the loop can match has length 0.
  \<open>groups_ok\<close> and \<open>codes_ok\<close> are the corresponding invariants of the two
  dictionaries of the generator, for symbols below a bound \<open>B\<close>.
\<close>

definition table_ok :: "bool \<Rightarrow> code_table \<Rightarrow> bool" where
  "table_ok skip0 codes \<longleftrightarrow> (\<forall>(s, c, l)\<in>set codes. s < 256 \<and> (skip0 \<or> l \<noteq> 0))"

definition groups_ok :: "nat \<Rightarrow> (nat \<times> nat list) list \<Rightarrow> bool" where
  "groups_ok B groups \<longleftrightarrow> (\<forall>(len, g)\<in>set groups. 0 < len \<and> (\<forall>s\<in>set g. s < B))"

definition codes_ok :: "nat \<Rightarrow> code_table \<Rightarrow> bool" where
  "codes_ok B codes \<longleftrightarrow> (\<forall>(s, c, l)\<in>set codes. s < B \<and> 0 < l)"

section \<open>Properties\<close>

lemma rle_loop_pairs: "rle_loop data i out = out @ rle_pairs (drop i data)"
proof (induction data i out rule: rle_loop.induct)
  case (1 data i out)
  show ?case
  proof (cases "i + 1 < length data")
    case True
    then have d: "drop i data = data ! i # data ! (i + 1) # drop (i + 2) data"
      by (simp add: Cons_nth_drop_Suc)
    from True have c: "int i < int (length data) - 1" by simp
    show ?thesis
      using "1.IH" [OF c refl refl refl] c d
      by (subst rle_loop.simps) (simp add: Let_def)
  next
    case False
    then have "length (drop i data) \<le> 1" by simp
    then have "rle_pairs (drop i data) = []"
      by (cases "drop i data" rule: rle_pairs.cases) auto
    with False show ?thesis
      by (subst rle_loop.simps) simp
  qed
qed

lemma rle_pairs_snoc: "even (length xs) \<Longrightarrow> rle_pairs (xs @ [b]) = rle_pairs xs"
  by (induction xs rule: rle_pairs.induct) auto

lemma rle_odd_ignores_last_byte:
  "odd (length data) \<Longrightarrow>
     decompress_rle data = decompress_rle (butlast data)
     \<and> decompress_rle data = rle_pairs (butlast data)"
proof -
  assume o: "odd (length data)"
  then have ne: "data \<noteq> []" by auto
  then have "data = butlast data @ [last data]" by simp
  moreover have "even (length (butlast data))" using o ne by simp
  ultimately have "rle_pairs data = rle_pairs (butlast data)"
    using rle_pairs_snoc [of "butlast data" "last data"] by simp
  then show ?thesis by (simp add: decompress_rle_def rle_loop_pairs)
qed

subsection \<open>Selection of the maximum\<close>

lemma tuple_greater_trans:
  "tuple_greater a b \<Longrightarrow> tuple_greater b c \<Longrightarrow> tuple_greater a c"
  by (auto simp: tuple_greater_def)

lemma tuple_greater_le_trans:
  "tuple_greater a b \<Longrightarrow> \<not> tuple_greater c b \<Longrightarrow> tuple_greater a c"
  by (auto simp: tuple_greater_def)

lemma max_loop_snoc:
  "max_loop b (rs @ [r]) =
     (if tuple_greater (selection_key r) (selection_key (max_loop b rs)) then r
      else max_loop b rs)"
  by (induction rs arbitrary: b) simp_all

lemma max_loop_decomp:
  "\<exists>pre post. b # rs = pre @ max_loop b rs # post
     \<and> (\<forall>r\<in>set pre. tuple_greater (selection_key (max_loop b rs)) (selection_key r))
     \<and> (\<forall>r\<in>set post. \<not> tuple_greater (selection_key r) (selection_key (max_loop b rs)))"
proof (induction rs rule: rev_induct)
  case Nil
  have "[b] = [] @ max_loop b [] # []" by simp
  then show ?case by fastforce
next
  case (snoc x xs)
  let ?m = "max_loop b xs"
  from snoc obtain pre post where d: "b # xs = pre @ ?m # post"
    and lo: "\<forall>r\<in>set pre. tuple_greater (selection_key ?m) (selection_key r)"
    and hi: "\<forall>r\<in>set post. \<not> tuple_greater (selection_key r) (selection_key ?m)"
    by blast
  show ?case
  proof (cases "tuple_greater (selection_key x) (selection_key ?m)")
    case True
    then have m: "max_loop b (xs @ [x]) = x" by (simp add: max_loop_snoc)
    have "\<forall>r\<in>set (b # xs). tuple_greater (selection_key x) (selection_key r)"
    proof
      fix r assume "r \<in> set (b # xs)"
      then have "r \<in> set pre \<or> r = ?m \<or> r \<in> set post" unfolding d by auto
      then show "tuple_greater (selection_key x) (selection_key r)"
        using True lo hi tuple_greater_trans tuple_greater_le_trans by blast
    qed
    moreover have "b # xs @ [x] = (b # xs) @ x # []" by simp
    ultimately show ?thesis unfolding m by (metis empty_iff empty_set)
  next
    case False
    then have m: "max_loop b (xs @ [x]) = ?m" by (simp add: max_loop_snoc)
    have "b # xs @ [x] = pre @ ?m # (post @ [x])" using d by simp
    moreover have "\<forall>r\<in>set (post @ [x]). \<not> tuple_greater (selection_key r) (selection_key ?m)"
      using hi False by auto
    ultimately show ?thesis unfolding m using lo by blast
  qed
qed

lemma filter_decomp:
  "filter P rs = qpre @ m # qpost \<Longrightarrow>
     \<exists>pre post. rs = pre @ m # post \<and> P m \<and> filter P pre = qpre \<and> filter P post = qpost"
proof (induction qpre arbitrary: rs)
  case Nil
  then obtain us vs where "rs = us @ m # vs" "\<forall>u\<in>set us. \<not> P u" "P m" "qpost = filter P vs"
    by (auto simp: filter_eq_Cons_iff)
  moreover from this have "filter P us = []" by simp
  ultimately show ?case by blast
next
  case (Cons a qpre)
  then obtain us vs where rs: "rs = us @ a # vs" and n: "\<forall>u\<in>set us. \<not> P u" and a: "P a"
    and vs: "filter P vs = qpre @ m # qpost"
    by (auto simp: filter_eq_Cons_iff)
  from Cons.IH [OF vs] obtain pre post where v: "vs = pre @ m # post" and pm: "P m"
    and fpre: "filter P pre = qpre" and fpost: "filter P post = qpost"
    by blast
  have "rs = (us @ a # pre) @ m # post" using rs v by simp
  moreover have "filter P (us @ a # pre) = a # qpre" using n a fpre by simp
  ultimately show ?case using pm fpost by blast
qed

subsection \<open>The driver on sample blobs, in exact arithmetic\<close>

lemma exact_ops_simps:
  "f_lit exact_ops q = of_rat q"
  "f_add exact_ops a b = a + b"
  "f_sub exact_ops a b = a - b"
  "f_mul exact_ops a b = a * b"
  "f_div exact_ops m n = real m / real n"
  "f_log2 exact_ops a = log 2 a"
  by (simp_all add: exact_ops_def)

lemma entropy_fold_zeros:
  "fold (\<lambda>freq entropy.
           if freq > 0 then
             (let probability = f_div fl freq n
              in f_sub fl entropy (f_mul fl probability (f_log2 fl probability)))
           else entropy) (replicate k (0::nat)) e = e"
  by (induction k) simp_all

lemma log2_half: "log 2 (1 / 2) = -1"
  by (simp add: log_divide)

lemma log2_quarter: "log 2 (1 / 4) = -2"
proof -
  have "log 2 4 = log 2 (2 ^ 2)" by simp
  also have "\<dots> = 2" by (subst log_pow_cancel) simp_all
  finally show ?thesis by (simp add: log_divide)
qed

lemma frequencies_sample:
  "byte_frequencies [0xF0, 1, 1, 2, 2, 0, 0, 0xF0]
     = [2, 2, 2] @ replicate 237 0 @ [2] @ replicate 15 0"
  by code_simp

lemma frequencies_1122: "byte_frequencies [1, 1, 2, 2] = [0, 2, 2] @ replicate 253 0"
  by code_simp

lemma frequencies_12: "byte_frequencies [1, 2] = [0, 1, 1] @ replicate 253 0"
  by code_simp

lemma frequencies_13: "byte_frequencies [1, 3] = [0, 1, 0, 1] @ replicate 252 0"
  by code_simp

lemma entropy_sample: "calculate_entropy exact_ops [0xF0, 1, 1, 2, 2, 0, 0, 0xF0] = 2"
  by (simp add: calculate_entropy_def frequencies_sample entropy_fold_zeros exact_ops_def
        log2_quarter Let_def del: fold_replicate)

lemma entropy_1122: "calculate_entropy exact_ops [1, 1, 2, 2] = 1"
  by (simp add: calculate_entropy_def frequencies_1122 entropy_fold_zeros exact_ops_def
        log2_half Let_def del: fold_replicate)

lemma entropy_12: "calculate_entropy exact_ops [1, 2] = 1"
  by (simp add: calculate_entropy_def frequencies_12 entropy_fold_zeros exact_ops_def
        log2_half Let_def del: fold_replicate)

lemma entropy_13: "calculate_entropy exact_ops [1, 3] = 1"
  by (simp add: calculate_entropy_def frequencies_13 entropy_fold_zeros exact_ops_def
        log2_half Let_def del: fold_replicate)

lemma lzw_sample:
  "decompress_lzw [0xF0, 1, 1, 2, 2, 0, 0, 0xF0] = Inr [0xF0, 1, 1, 2, 2, 0, 0, 0xF0]"
  by code_simp

lemma lz77_sample: "decompress_lz77 [0xF0, 1, 1, 2, 2, 0, 0, 0xF0] = [1, 1, 2, 2]"
  by code_simp

lemma delta_12: "decompress_delta [1, 2] = [1, 3]"
  by code_simp

lemma lzw_12: "decompress_lzw [1, 2] = Inr [1, 2]"
  by code_simp

lemma sample_lengths:
  "length [0xF0, 1, 1, 2, 2, 0, 0, 0xF0 :: byte] = 8"
  "length [1, 1, 2, 2 :: byte] = 4"
  "length [1, 2 :: byte] = 2"
  "length [1, 3 :: byte] = 2"
  by simp_all

lemma validate_lzw_sample:
  "validate_decompressed_data exact_ops [0xF0, 1, 1, 2, 2, 0, 0, 0xF0] 8 = (True, ''Validation passed'')"
  by (simp add: validate_decompressed_data_def entropy_sample exact_ops_simps of_rat_divide Let_def)

lemma confidence_lzw_sample:
  "calculate_confidence exact_ops
     \<lparr>method_tag = ''lzw'', success = True, decompressed_size = 8, original_size = 8,
       compression_ratio = 1, confidence = 0, entropy_original = 2,
       entropy_decompressed = 2, checksum_valid = True,
       validation_msg = ''Validation passed'', error = None,
       decompressed_data = Some [0xF0, 1, 1, 2, 2, 0, 0, 0xF0]\<rparr>
   = 2 / 10"
  by (simp add: calculate_confidence_def exact_ops_simps of_rat_divide Let_def)

lemma outcome_lzw_sample:
  "test_decompression exact_ops [0xF0, 1, 1, 2, 2, 0, 0, 0xF0] ''lzw'' decompress_lzw
   = \<lparr>method_tag = ''lzw'', success = True, decompressed_size = 8, original_size = 8,
       compression_ratio = 1, confidence = 2 / 10, entropy_original = 2,
       entropy_decompressed = 2, checksum_valid = True,
       validation_msg = ''Validation passed'', error = None,
       decompressed_data = Some [0xF0, 1, 1, 2, 2, 0, 0, 0xF0]\<rparr>"
  unfolding test_decompression_def Let_def lzw_sample sum.case sample_lengths entropy_sample
    validate_lzw_sample fst_conv snd_conv
  by (simp add: exact_ops_simps confidence_lzw_sample)

lemma validate_lz77_sample:
  "validate_decompressed_data exact_ops [1, 1, 2, 2] 8 = (True, ''Validation passed'')"
  by (simp add: validate_decompressed_data_def entropy_sample entropy_1122 exact_ops_simps of_rat_divide Let_def)

lemma confidence_lz77_sample:
  "calculate_confidence exact_ops
     \<lparr>method_tag = ''lz77'', success = True, decompressed_size = 4, original_size = 8,
       compression_ratio = 1 / 2, confidence = 0, entropy_original = 2,
       entropy_decompressed = 1, checksum_valid = True,
       validation_msg = ''Validation passed'', error = None,
       decompressed_data = Some [1, 1, 2, 2]\<rparr>
   = 35 / 100"
  by (simp add: calculate_confidence_def exact_ops_simps of_rat_divide Let_def)

lemma outcome_lz77_sample:
  "test_decompression exact_ops [0xF0, 1, 1, 2, 2, 0, 0, 0xF0] ''lz77'' (\<lambda>d. Inr (decompress_lz77 d))
   = \<lparr>method_tag = ''lz77'', success = True, decompressed_size = 4, original_size = 8,
       compression_ratio = 1 / 2, confidence = 35 / 100, entropy_original = 2,
       entropy_decompressed = 1, checksum_valid = True,
       validation_msg = ''Validation passed'', error = None,
       decompressed_data = Some [1, 1, 2, 2]\<rparr>"
  unfolding test_decompression_def Let_def lz77_sample sum.case sample_lengths entropy_sample entropy_1122
    validate_lz77_sample fst_conv snd_conv
  by (simp add: exact_ops_simps confidence_lz77_sample)

lemma validate_delta_12:
  "validate_decompressed_data exact_ops [1, 3] 2 = (True, ''Validation passed'')"
  by (simp add: validate_decompressed_data_def entropy_12 entropy_13 exact_ops_simps of_rat_divide Let_def)

lemma confidence_delta_12:
  "calculate_confidence exact_ops
     \<lparr>method_tag = ''delta'', success = True, decompressed_size = 2, original_size = 2,
       compression_ratio = 1, confidence = 0, entropy_original = 1,
       entropy_decompressed = 1, checksum_valid = True,
       validation_msg = ''Validation passed'', error = None,
       decompressed_data = Some [1, 3]\<rparr>
   = 2 / 10"
  by (simp add: calculate_confidence_def exact_ops_simps of_rat_divide Let_def)

lemma outcome_delta_12:
  "test_decompression exact_ops [1, 2] ''delta'' (\<lambda>d. Inr (decompress_delta d))
   = \<lparr>method_tag = ''delta'', success = True, decompressed_size = 2, original_size = 2,
       compression_ratio = 1, confidence = 2 / 10, entropy_original = 1,
       entropy_decompressed = 1, checksum_valid = True,
       validation_msg = ''Validation passed'', error = None,
       decompressed_data = Some [1, 3]\<rparr>"
  unfolding test_decompression_def Let_def delta_12 sum.case sample_lengths entropy_12 entropy_13
    validate_delta_12 fst_conv snd_conv
  by (simp add: exact_ops_simps confidence_delta_12)

lemma validate_lzw_12:
  "validate_decompressed_data exact_ops [1, 2] 2 = (True, ''Validation passed'')"
  by (simp add: validate_decompressed_data_def entropy_12 exact_ops_simps of_rat_divide Let_def)

lemma confidence_lzw_12:
  "calculate_confidence exact_ops
     \<lparr>method_tag = ''lzw'', success = True, decompressed_size = 2, original_size = 2,
       compression_ratio = 1, confidence = 0, entropy_original = 1,
       entropy_decompressed = 1, checksum_valid = True,
       validation_msg = ''Validation passed'', error = None,
       decompressed_data = Some [1, 2]\<rparr>
   = 2 / 10"
  by (simp add: calculate_confidence_def exact_ops_simps of_rat_divide Let_def)

lemma outcome_lzw_12:
  "test_decompression exact_ops [1, 2] ''lzw'' decompress_lzw
   = \<lparr>method_tag = ''lzw'', success = True, decompressed_size = 2, original_size = 2,
       compression_ratio = 1, confidence = 2 / 10, entropy_original = 1,
       entropy_decompressed = 1, checksum_valid = True,
       validation_msg = ''Validation passed'', error = None,
       decompressed_data = Some [1, 2]\<rparr>"
  unfolding test_decompression_def Let_def lzw_12 sum.case sample_lengths entropy_12
    validate_lzw_12 fst_conv snd_conv
  by (simp add: exact_ops_simps confidence_lzw_12)

lemma outcome_huffman_simple_sample:
  "test_decompression exact_ops [0xF0, 1, 1, 2, 2, 0, 0, 0xF0] ''huffman_simple''
     decompress_huffman_simple
   = \<lparr>method_tag = ''huffman_simple'', success = False, decompressed_size = 0,
       original_size = 8, compression_ratio = 0, confidence = 0, entropy_original = 2,
       entropy_decompressed = 0, checksum_valid = False,
       validation_msg = ''Decompression failed'',
       error = Some (ValueError ''Too short for simple Huffman''), decompressed_data = None\<rparr>"
  by (simp add: test_decompression_def decompress_huffman_simple_def entropy_sample Let_def)

subsection \<open>Errors of the Huffman decoders\<close>

lemma huffman_decode_loop_error:
  "huffman_decode_loop skip0 codes bs result = Inl e \<Longrightarrow>
     e = Diverges \<or> e = ValueError ''byte must be in range(0, 256)''"
proof (induction skip0 codes bs result rule: huffman_decode_loop.induct)
  case (1 skip0 codes bs result)
  show ?case
  proof (cases "has_bits bs 1")
    case False
    with "1.prems" show ?thesis
      by (subst (asm) huffman_decode_loop.simps) simp
  next
    case True
    show ?thesis
    proof (cases "fst (find_code skip0 codes bs)")
      case None
      with True "1.prems" show ?thesis
        by (subst (asm) huffman_decode_loop.simps) simp
    next
      case (Some p)
      obtain symbol code_len where p: "p = (symbol, code_len)" by (cases p)
      show ?thesis
      proof (cases "code_len = 0 \<or> symbol \<ge> 256")
        case stop: True
        with True Some p "1.prems" show ?thesis
          by (subst (asm) huffman_decode_loop.simps) (auto split: if_splits)
      next
        case go: False
        from True Some p go "1.prems"
        have "huffman_decode_loop skip0 codes
                (snd (read_bits (snd (find_code skip0 codes bs)) code_len))
                (result @ [of_nat symbol]) = Inl e"
          by (subst (asm) huffman_decode_loop.simps) simp
        with "1.IH" [OF True Some p [symmetric]] go show ?thesis by simp
      qed
    qed
  qed
qed

lemma huffman_try_formats_error:
  "huffman_try_formats fs data = Inl e \<Longrightarrow> e = ValueError ''No valid Huffman format found''"
  by (induction fs) (auto split: sum.splits if_splits)

subsection \<open>The Huffman decoders always return\<close>

lemma find_code_entry:
  "fst (find_code skip0 codes bs) = Some (s, l) \<Longrightarrow>
     \<exists>c. (s, (c, l)) \<in> set codes \<and> (skip0 \<longrightarrow> l \<noteq> 0)"
proof (induction skip0 codes bs rule: find_code.induct)
  case (1 skip0 bs)
  then show ?case by simp
next
  case (2 skip0 symbol code_val code_len rest bs)
  show ?case
  proof (cases "skip0 \<and> code_len = 0")
    case True
    with 2 show ?thesis by auto
  next
    case False
    show ?thesis
    proof (cases "fst (peek_bits bs code_len) = code_val")
      case True
      with False "2.prems" show ?thesis by (auto simp: Let_def split: if_splits)
    next
      case ne: False
      with False "2.prems" have "fst (find_code skip0 rest (snd (peek_bits bs code_len))) = Some (s, l)"
        by (auto simp: Let_def split: if_splits)
      with "2.IH"(2) [OF False refl ne] show ?thesis by auto
    qed
  qed
qed

lemma huffman_decode_loop_total:
  "table_ok skip0 codes \<Longrightarrow> \<exists>out. huffman_decode_loop skip0 codes bs result = Inr out"
proof (induction skip0 codes bs result rule: huffman_decode_loop.induct)
  case (1 skip0 codes bs result)
  show ?case
  proof (cases "has_bits bs 1")
    case False
    then show ?thesis by (subst huffman_decode_loop.simps) simp
  next
    case True
    show ?thesis
    proof (cases "fst (find_code skip0 codes bs)")
      case None
      with True show ?thesis by (subst huffman_decode_loop.simps) simp
    next
      case (Some p)
      obtain symbol code_len where p: "p = (symbol, code_len)" by (cases p)
      from find_code_entry [of skip0 codes bs symbol code_len] Some p "1.prems"
      have ok: "code_len \<noteq> 0" "\<not> 256 \<le> symbol"
        by (auto simp: table_ok_def)
      from "1.IH" [OF True Some p [symmetric] ok "1.prems"] True Some p ok
      show ?thesis by (subst huffman_decode_loop.simps) simp
    qed
  qed
qed


lemma set_alist_update: "set (AList.update k v al) \<subseteq> insert (k, v) (set al)"
  by (induction al) auto

lemma groups_ok_update:
  "groups_ok B groups \<Longrightarrow> 0 < len \<Longrightarrow> \<forall>s\<in>set g. s < B \<Longrightarrow>
     groups_ok B (AList.update len g groups)"
  using set_alist_update [of len g groups] by (fastforce simp: groups_ok_def)

lemma groups_ok_lookup:
  "groups_ok B groups \<Longrightarrow> map_of groups len = Some g \<Longrightarrow> \<forall>s\<in>set g. s < B"
  by (auto simp: groups_ok_def dest!: map_of_SomeD)

lemma group_fold_ok:
  "groups_ok B groups \<Longrightarrow> n + length xs \<le> B \<Longrightarrow>
     groups_ok B
       (fold (\<lambda>(symbol, len) length_groups.
                if len > 0 then
                  (case map_of length_groups len of
                     None \<Rightarrow> AList.update len [symbol] length_groups
                   | Some g \<Rightarrow> AList.update len (g @ [symbol]) length_groups)
                else length_groups)
          (enumerate n xs) groups)"
proof (induction xs arbitrary: n groups)
  case Nil
  then show ?case by simp
next
  case (Cons x xs)
  let ?g = "if x > 0 then
              (case map_of groups x of
                 None \<Rightarrow> AList.update x [n] groups
               | Some g \<Rightarrow> AList.update x (g @ [n]) groups)
            else groups"
  have n: "n < B" using Cons.prems(2) by simp
  have "groups_ok B ?g"
  proof (cases "x > 0")
    case False
    with Cons.prems(1) show ?thesis by simp
  next
    case True
    show ?thesis
    proof (cases "map_of groups x")
      case None
      with True n Cons.prems(1) show ?thesis by (simp add: groups_ok_update)
    next
      case (Some g)
      with groups_ok_lookup [OF Cons.prems(1) Some] True n Cons.prems(1)
      show ?thesis by (simp add: groups_ok_update)
    qed
  qed
  moreover have "Suc n + length xs \<le> B" using Cons.prems(2) by simp
  ultimately show ?case using Cons.IH [of ?g "Suc n"] by simp
qed

lemma group_by_length_ok: "groups_ok (length bit_lengths) (group_by_length bit_lengths)"
  unfolding group_by_length_def
  by (rule group_fold_ok) (simp_all add: groups_ok_def)

lemma assign_symbols_ok:
  "codes_ok B codes \<Longrightarrow> 0 < len \<Longrightarrow> \<forall>s\<in>set syms. s < B \<Longrightarrow>
     codes_ok B (snd (assign_symbols syms len code codes))"
proof (induction syms arbitrary: code codes)
  case Nil
  then show ?case by simp
next
  case (Cons s syms)
  have "codes_ok B (AList.update s (code, len) codes)"
    using set_alist_update [of s "(code, len)" codes] Cons.prems
    by (fastforce simp: codes_ok_def)
  with Cons show ?case by simp
qed

lemma assign_lengths_ok:
  "codes_ok B codes \<Longrightarrow> groups_ok B groups \<Longrightarrow> \<forall>len\<in>set lens. 0 < len \<Longrightarrow>
     codes_ok B (assign_lengths lens groups code codes)"
proof (induction lens arbitrary: code codes)
  case Nil
  then show ?case by simp
next
  case (Cons len lens)
  let ?group = "case map_of groups len of Some g \<Rightarrow> g | None \<Rightarrow> []"
  have "\<forall>s\<in>set (sort ?group). s < B"
    using groups_ok_lookup [OF Cons.prems(2)] by (cases "map_of groups len") auto
  with Cons.prems have "codes_ok B (snd (assign_symbols (sort ?group) len code codes))"
    by (intro assign_symbols_ok) simp_all
  with Cons show ?case by (simp add: Let_def)
qed

lemma generate_canonical_huffman_codes_ok:
  "codes_ok (length bit_lengths) (generate_canonical_huffman_codes bit_lengths)"
proof -
  have g: "groups_ok (length bit_lengths) (group_by_length bit_lengths)"
    by (rule group_by_length_ok)
  then have "\<forall>len\<in>set (sort (map fst (group_by_length bit_lengths))). 0 < len"
    by (auto simp: groups_ok_def)
  with g show ?thesis
    unfolding generate_canonical_huffman_codes_def Let_def
    by (intro assign_lengths_ok) (simp_all add: codes_ok_def)
qed

lemma codes_ok_table_ok: "codes_ok B codes \<Longrightarrow> B \<le> 256 \<Longrightarrow> table_ok skip0 codes"
  by (fastforce simp: codes_ok_def table_ok_def)

lemma simple_table_ok:
  "codes_ok 256 codes \<Longrightarrow> \<forall>s\<in>set syms. s < 256 \<Longrightarrow>
     codes_ok 256 (fst (simple_table data syms pos codes))"
proof (induction data syms pos codes rule: simple_table.induct)
  case (1 data pos huffman_codes)
  then show ?case by simp
next
  case (2 data symbol rest pos huffman_codes)
  have u: "codes_ok 256 (AList.update symbol (c, unat (data ! pos)) huffman_codes)"
    if "unat (data ! pos) \<noteq> 0" for c
    using set_alist_update [of symbol "(c, unat (data ! pos))" huffman_codes] "2.prems" that
    by (fastforce simp: codes_ok_def)
  show ?case
    using 2 u by (auto simp: Let_def)
qed

lemma decompress_huffman_standard_total:
  assumes "length data \<ge> 4"
  shows "\<exists>out. decompress_huffman_standard data = Inr out"
proof -
  define ts where "ts = (if unat (data ! 0) = 0 then min 256 (length data - 1)
                         else unat (data ! 0))"
  define cl0 where "cl0 = map unat (take ts (drop 1 data))"
  define cl where "cl = cl0 @ replicate (256 - length cl0) 0"
  have "unat (data ! 0) < 256" using unsigned_less [of "data ! 0", where ?'a = nat] by simp
  then have "ts \<le> 256" by (simp add: ts_def)
  then have "length cl0 \<le> 256" by (simp add: cl0_def)
  then have len: "length cl = 256" by (simp add: cl_def)
  have eq: "decompress_huffman_standard data
              = huffman_decode_loop True (generate_canonical_huffman_codes cl)
                  (BitStream_init (drop (ts + 1) data)) []"
    using assms by (simp add: decompress_huffman_standard_def Let_def ts_def cl_def cl0_def)
  have "table_ok True (generate_canonical_huffman_codes cl)"
    using generate_canonical_huffman_codes_ok [of cl] len by (auto intro: codes_ok_table_ok)
  then show ?thesis unfolding eq by (rule huffman_decode_loop_total)
qed

lemma decompress_huffman_canonical_total:
  assumes "length data \<ge> 2"
  shows "\<exists>out. decompress_huffman_canonical data = Inr out"
proof -
  define sc0 where "sc0 = (if unat (data ! 0) = 0 then min 256 (length data - 1)
                           else unat (data ! 0))"
  define sc where "sc = (if sc0 > 256 then 256 else sc0)"
  define cl where "cl = map unat (take sc (drop 1 data))"
  have "sc \<le> 256" by (simp add: sc_def)
  then have len: "length cl \<le> 256" by (simp add: cl_def)
  have eq: "decompress_huffman_canonical data
              = huffman_decode_loop False (generate_canonical_huffman_codes cl)
                  (BitStream_init (drop (sc + 1) data)) []"
    using assms by (simp add: decompress_huffman_canonical_def Let_def sc_def sc0_def cl_def)
  have "table_ok False (generate_canonical_huffman_codes cl)"
    using generate_canonical_huffman_codes_ok [of cl] len by (auto intro: codes_ok_table_ok)
  then show ?thesis unfolding eq by (rule huffman_decode_loop_total)
qed

lemma decompress_huffman_simple_total:
  "length data \<ge> 512 \<Longrightarrow>
     (\<exists>out. decompress_huffman_simple data = Inr out)
     \<or> decompress_huffman_simple data = Inl (ValueError ''No valid Huffman codes found'')"
proof -
  assume l: "length data \<ge> 512"
  have "codes_ok 256 (fst (simple_table data [0..<256] 0 []))"
    by (rule simple_table_ok) (simp_all add: codes_ok_def)
  then have "table_ok False (fst (simple_table data [0..<256] 0 []))"
    by (rule codes_ok_table_ok) simp
  from huffman_decode_loop_total [OF this] l show ?thesis
    by (auto simp: decompress_huffman_simple_def Let_def)
qed

subsection \<open>The cursor of a bit stream\<close>

lemma cursor_inv_init: "cursor_inv 0 (BitStream_init blob)"
  by (simp add: cursor_inv_def BitStream_init_def)

lemma cursor_inv_read_bit:
  assumes "cursor_inv c bs"
  shows "cursor_inv (c + (if has_bits bs 1 then 1 else 0)) (snd (read_bit bs))"
proof (cases "has_bits bs 1")
  case False
  with assms show ?thesis by (simp add: read_bit_def)
next
  case True
  show ?thesis
  proof (cases "bs_bit_pos bs = 0")
    case z: True
    with True assms show ?thesis
      by (simp add: read_bit_def cursor_inv_def Let_def)
  next
    case nz: False
    from assms have lt: "bs_bit_pos bs < 8" by (simp add: cursor_inv_def)
    show ?thesis
    proof (cases "bs_bit_pos bs = 7")
      case True
      with \<open>has_bits bs 1\<close> assms show ?thesis
        by (simp add: read_bit_def cursor_inv_def Let_def)
    next
      case False
      with lt have m: "Suc (bs_bit_pos bs) mod 8 = Suc (bs_bit_pos bs)" by simp
      from nz \<open>has_bits bs 1\<close> assms False lt show ?thesis
        by (simp add: read_bit_def cursor_inv_def Let_def m)
    qed
  qed
qed

lemma cursor_inv_read_bits_loop:
  "cursor_inv c bs \<Longrightarrow> cursor_inv (c + consumed_bits n bs) (snd (read_bits_loop n r bs))"
proof (induction n arbitrary: c r bs)
  case 0
  then show ?case by simp
next
  case (Suc n)
  from cursor_inv_read_bit [OF Suc.prems]
  have "cursor_inv (c + (if has_bits bs 1 then 1 else 0) + consumed_bits n (snd (read_bit bs)))
          (snd (read_bits_loop n (push_bit 1 r OR fst (read_bit bs)) (snd (read_bit bs))))"
    by (rule Suc.IH)
  then show ?case by (simp add: Let_def add.assoc)
qed

lemma cursor_inv_run_ops:
  "cursor_inv c bs \<Longrightarrow> cursor_inv (fst (run_ops ops (c, bs))) (snd (run_ops ops (c, bs)))"
proof (induction ops arbitrary: c bs)
  case Nil
  then show ?case by simp
next
  case (Cons op ops)
  show ?case
  proof (cases op)
    case ReadBit
    from cursor_inv_read_bit [OF Cons.prems]
    have "cursor_inv
            (fst (run_ops ops (c + (if has_bits bs 1 then 1 else 0), snd (read_bit bs))))
            (snd (run_ops ops (c + (if has_bits bs 1 then 1 else 0), snd (read_bit bs))))"
      by (rule Cons.IH)
    with ReadBit show ?thesis by simp
  next
    case (ReadBits n)
    from cursor_inv_read_bits_loop [OF Cons.prems, of n 0]
    have "cursor_inv (fst (run_ops ops (c + consumed_bits n bs, snd (read_bits bs n))))
            (snd (run_ops ops (c + consumed_bits n bs, snd (read_bits bs n))))"
      unfolding read_bits_def by (rule Cons.IH)
    with ReadBits show ?thesis by simp
  qed
qed

lemma run_ops_data: "bs_data (snd (run_ops ops (c, bs))) = bs_data bs"
proof (induction ops arbitrary: c bs)
  case Nil
  show ?case by simp
next
  case (Cons op ops)
  then show ?case
    by (cases op) (simp_all add: read_bit_data read_bits_def read_bits_loop_data)
qed

lemma cursor_aligned:
  fixes b p c :: nat
  assumes "b < 8" and "8 * p + b = c + (if b = 0 then 0 else 8)"
  shows "(c mod 8 = 0) = (b = 0)"
proof (cases "b = 0")
  case True
  with assms(2) have "c = 8 * p" by simp
  with True show ?thesis by simp
next
  case False
  with assms(2) have e: "8 * p + b = c + 8" by simp
  then obtain q where p: "p = Suc q" by (cases p) (use assms(1) in auto)
  with e have "c = 8 * q + b" by simp
  then have "c mod 8 = b" using assms(1) by simp
  with False show ?thesis by simp
qed

lemma has_bits_reachable:
  "has_bits (snd (run_ops ops (0, BitStream_init blob))) n \<longleftrightarrow>
     fst (run_ops ops (0, BitStream_init blob))
       + (if fst (run_ops ops (0, BitStream_init blob)) mod 8 = 0 then 0 else 8) + n
     \<le> 8 * length blob"
proof -
  define c where "c = fst (run_ops ops (0, BitStream_init blob))"
  define bs where "bs = snd (run_ops ops (0, BitStream_init blob))"
  have "cursor_inv c bs"
    unfolding c_def bs_def by (rule cursor_inv_run_ops) (rule cursor_inv_init)
  then have lt: "bs_bit_pos bs < 8"
    and eq: "8 * bs_pos bs + bs_bit_pos bs = c + (if bs_bit_pos bs = 0 then 0 else 8)"
    by (simp_all add: cursor_inv_def)
  have d: "bs_data bs = blob"
    unfolding bs_def by (simp add: run_ops_data BitStream_init_def)
  have al: "(c mod 8 = 0) = (bs_bit_pos bs = 0)"
    using lt eq by (rule cursor_aligned)
  have "has_bits bs n \<longleftrightarrow> 8 * bs_pos bs + bs_bit_pos bs + n \<le> 8 * length blob"
    by (simp add: has_bits_def d mult.commute)
  also have "\<dots> \<longleftrightarrow> c + (if c mod 8 = 0 then 0 else 8) + n \<le> 8 * length blob"
    unfolding eq al by simp
  finally show ?thesis unfolding c_def bs_def .
qed

subsection \<open>Scenario and error-path checks of the simple decoders\<close>

text \<open>
  C8. Decoding the 13 bytes \<open>FF 'A'..'H' 00 00 04 04\<close> with the LZ77 decoder gives the
  12 bytes \<open>ABCDEFGHEFGH\<close>: eight literals, then a reference with offset 4 and
  length 4 that copies \<open>EFGH\<close>.
\<close>

theorem lz77_scenario:
  "decompress_lz77
     [0xFF, 0x41, 0x42, 0x43, 0x44, 0x45, 0x46, 0x47, 0x48, 0x00, 0x00, 0x04, 0x04]
   = [0x41, 0x42, 0x43, 0x44, 0x45, 0x46, 0x47, 0x48, 0x45, 0x46, 0x47, 0x48]"
  by code_simp

text \<open>
  C9. The VLQ decoder is not total. On the five bytes \<open>FF FF FF FF 7F\<close> the group
  loop folds in the fifth byte at shift 28 before the cap stops it, the accumulated
  value is \<open>2^35 - 1\<close>, which is more than \<open>2^32 - 1\<close>, and the conversion to four
  bytes raises: the decode fails.
\<close>

theorem vlq_overflow:
  "vlq_group [0xFF, 0xFF, 0xFF, 0xFF, 0x7F] 0 0 0 = (2 ^ 35 - 1, 5)
   \<and> (2::int) ^ 32 - 1 < 2 ^ 35 - 1
   \<and> decompress_vlq [0xFF, 0xFF, 0xFF, 0xFF, 0x7F] = Inl OverflowError"
  by code_simp

text \<open>
  C10. LZW-decoding the empty blob returns the empty byte sequence and raises nothing.
\<close>

theorem lzw_empty: "decompress_lzw [] = Inr []"
  by (simp add: decompress_lzw_def)

subsection \<open>Run-length decoding of odd-length input\<close>

text \<open>
  C4 does not hold of the code. The three bytes \<open>03 41 02\<close> have odd length;
  \<open>decompress_rle\<close> returns \<open>AAA\<close> and the driver records a successful decode,
  where the run-length decoder \<open>try_rle\<close> of the sibling script raises
  \<open>ValueError\<close> on the same input. The loop guard \<open>i < len(data) - 1\<close> leaves the
  loop in front of an unpaired last byte and nothing after the loop looks at it
  (lemma \<open>rle_odd_ignores_last_byte\<close>).
\<close>

theorem rle_odd_length_not_rejected:
  "odd (length [3, 0x41, 2 :: byte])
   \<and> decompress_rle [3, 0x41, 2] = [0x41, 0x41, 0x41]
   \<and> success (test_decompression exact_ops [3, 0x41, 2] ''rle''
                 (\<lambda>d. Inr (decompress_rle d)))
   \<and> try_rle [3, 0x41, 2] = Inl (ValueError ''Invalid RLE'')"
proof -
  have a: "decompress_rle [3, 0x41, 2] = [0x41, 0x41, 0x41]" by code_simp
  have b: "try_rle [3, 0x41, 2] = Inl (ValueError ''Invalid RLE'')" by code_simp
  from a b show ?thesis by (simp add: test_decompression_def Let_def)
qed

subsection \<open>Bit-stream reader\<close>

text \<open>
  C7. In every state of a bit stream, and so in every reachable one, and for every
  \<open>n\<close>: \<open>peek_bits n\<close> leaves the state (blob, byte position, bit position and
  buffered byte) as it was, and \<open>read_bits n\<close> called after it returns the value
  that the peek returned.
\<close>

theorem peek_then_read:
  "snd (peek_bits bs n) = bs
   \<and> fst (read_bits (snd (peek_bits bs n)) n) = fst (peek_bits bs n)"
  by (simp add: peek_bits_state) (simp add: peek_bits_def Let_def)

text \<open>
  C2 does not hold of the code. \<open>read_bit\<close> advances \<open>pos\<close> as soon as it loads a
  byte, so inside a byte \<open>pos * 8 + bit_pos\<close> is 8 more than the number of bits
  consumed. On the one-byte blob \<open>80\<close>, after one \<open>read_bit\<close> (which returns the
  bit 1) one bit is consumed and \<open>1 + 1 \<le> 8\<close>, yet \<open>has_bits 1\<close> is false; and
  \<open>read_bits 8\<close> on the blob \<open>FF\<close> returns 128, not 255, since only the first bit
  is delivered. (In general, by \<open>has_bits_reachable\<close>, the code answers
  \<open>c + n \<le> 8 * |blob|\<close> only at byte boundaries and \<open>c + 8 + n \<le> 8 * |blob|\<close>
  inside a byte.)
\<close>

theorem has_bits_false_inside_last_byte:
  "run_ops [ReadBit] (0, BitStream_init [0x80])
     = (1, \<lparr>bs_data = [0x80], bs_pos = 1, bs_bit_pos = 1, bs_current_byte = 0x80\<rparr>)
   \<and> fst (read_bit (BitStream_init [0x80])) = 1
   \<and> has_bits (snd (run_ops [ReadBit] (0, BitStream_init [0x80]))) 1 = False
   \<and> 1 + 1 \<le> 8 * length [0x80 :: byte]
   \<and> fst (read_bits (BitStream_init [0xFF]) 8) = 128"
  by code_simp

subsection \<open>Canonical Huffman code generator\<close>

text \<open>
  C1 does not hold of the code. The length vector with \<open>L[0] = 1\<close>,
  \<open>L[1] = \<dots> = L[4] = 3\<close> and all other entries 0 has Kraft sum
  \<open>1/2 + 4/8 = 1\<close>. The generator shifts the running code by one bit after the group
  of length 1, where the step to length 3 needs two: symbol 0 gets the bit string
  \<open>0\<close>, symbols 1 and 2 get \<open>010\<close> and \<open>011\<close>, and \<open>0\<close> is a prefix of both.
\<close>

theorem canonical_codes_not_prefix_free:
  "length ([1, 3, 3, 3, 3] @ replicate 251 (0::nat)) = 256
   \<and> kraft_sum ([1, 3, 3, 3, 3] @ replicate 251 0) = 1
   \<and> generate_canonical_huffman_codes ([1, 3, 3, 3, 3] @ replicate 251 0)
       = [(0, (0, 1)), (1, (2, 3)), (2, (3, 3)), (3, (4, 3)), (4, (5, 3))]
   \<and> code_bits 0 1 = [False]
   \<and> code_bits 2 3 = [False, True, False]
   \<and> prefix_clashes (generate_canonical_huffman_codes ([1, 3, 3, 3, 3] @ replicate 251 0))
       = [(0, 1), (0, 2)]"
  by code_simp

subsection \<open>Probe driver\<close>

text \<open>
  C6. Whatever the blob, the codec tag and the decoder, an outcome of the driver
  with \<open>success = False\<close> has \<open>decompressed_size = 0\<close>, \<open>confidence = 0\<close> and
  \<open>checksum_valid = False\<close>.
\<close>

theorem failed_outcome_fields:
  "\<not> success (test_decompression fl data method_name decompress_func) \<Longrightarrow>
     decompressed_size (test_decompression fl data method_name decompress_func) = 0
     \<and> confidence (test_decompression fl data method_name decompress_func) = 0
     \<and> \<not> checksum_valid (test_decompression fl data method_name decompress_func)"
  by (cases "decompress_func data") (simp_all add: test_decompression_def Let_def)

theorem failed_outcome_fields_witness:
  "\<not> success (test_decompression exact_ops [5] ''huffman_canonical''
                 decompress_huffman_canonical)
   \<and> decompressed_size
        (test_decompression exact_ops [5] ''huffman_canonical''
           decompress_huffman_canonical) = 0
   \<and> confidence
        (test_decompression exact_ops [5] ''huffman_canonical''
           decompress_huffman_canonical) = 0
   \<and> \<not> checksum_valid
          (test_decompression exact_ops [5] ''huffman_canonical''
             decompress_huffman_canonical)"
proof -
  have h: "\<not> success (test_decompression exact_ops [5] ''huffman_canonical''
                        decompress_huffman_canonical)"
    by (simp add: test_decompression_def decompress_huffman_canonical_def Let_def)
  from failed_outcome_fields [OF h] h show ?thesis by simp
qed

text \<open>
  C3. For every blob and registry, with the outcomes in registry order (and for every
  choice of the float operations): if no outcome has \<open>success\<close> and
  \<open>checksum_valid\<close>, then \<open>best_method\<close> is unset and \<open>best_ratio\<close>,
  \<open>best_confidence\<close> are 0. Otherwise the three \<open>best\<close> fields are those of a
  qualifying outcome \<open>b\<close> at some registry position such that every qualifying
  outcome at an earlier position has a smaller confidence, or the same confidence and
  a smaller ratio, and every qualifying outcome at a later position has a smaller
  confidence, or the same confidence and a ratio that is smaller or equal: \<open>b\<close> is
  the lexicographic maximum of \<open>(confidence, compression_ratio)\<close>, and among equal
  maxima the earliest.
\<close>

theorem best_selection:
  fixes fl :: "'f::{linorder,zero} float_ops" and path data algorithms
  defines "rep \<equiv> analyze_file fl path data algorithms"
  shows "map method_tag (results rep) = map fst algorithms
   \<and> ((\<forall>r\<in>set (results rep). \<not> (success r \<and> checksum_valid r)) \<longrightarrow>
        best_method rep = None \<and> best_ratio rep = 0 \<and> best_confidence rep = 0)
   \<and> ((\<exists>r\<in>set (results rep). success r \<and> checksum_valid r) \<longrightarrow>
        (\<exists>pre b post. results rep = pre @ b # post
           \<and> success b \<and> checksum_valid b
           \<and> best_method rep = Some (method_tag b)
           \<and> best_ratio rep = compression_ratio b
           \<and> best_confidence rep = confidence b
           \<and> (\<forall>r\<in>set pre. success r \<and> checksum_valid r \<longrightarrow>
                  confidence r < confidence b
                  \<or> (confidence r = confidence b
                      \<and> compression_ratio r < compression_ratio b))
           \<and> (\<forall>r\<in>set post. success r \<and> checksum_valid r \<longrightarrow>
                  confidence r < confidence b
                  \<or> (confidence r = confidence b
                      \<and> compression_ratio r \<le> compression_ratio b))))"
proof -
  define qualifies :: "'f DecompressionResult \<Rightarrow> bool"
    where "qualifies = (\<lambda>r. success r \<and> checksum_valid r)"
  let ?rs = "map (\<lambda>(method_name, decompress_func).
                    test_decompression fl data method_name decompress_func) algorithms"
  have rs: "results rep = ?rs" by (simp add: rep_def analyze_file_def Let_def)
  have tag: "method_tag (test_decompression fl data n f) = n" for n f
    by (cases "f data") (simp_all add: test_decompression_def Let_def)
  have c1: "map method_tag (results rep) = map fst algorithms"
    unfolding rs by (simp add: case_prod_unfold tag)
  have c2: "best_method rep = None \<and> best_ratio rep = 0 \<and> best_confidence rep = 0"
    if "\<forall>r\<in>set (results rep). \<not> (success r \<and> checksum_valid r)"
  proof -
    from that have "filter (\<lambda>r. success r \<and> checksum_valid r) ?rs = []"
      unfolding rs by (simp add: filter_empty_conv)
    then show ?thesis
      by (simp add: rep_def analyze_file_def Let_def)
  qed
  have c3: "\<exists>pre b post. results rep = pre @ b # post
           \<and> success b \<and> checksum_valid b
           \<and> best_method rep = Some (method_tag b)
           \<and> best_ratio rep = compression_ratio b
           \<and> best_confidence rep = confidence b
           \<and> (\<forall>r\<in>set pre. success r \<and> checksum_valid r \<longrightarrow>
                  confidence r < confidence b
                  \<or> (confidence r = confidence b
                      \<and> compression_ratio r < compression_ratio b))
           \<and> (\<forall>r\<in>set post. success r \<and> checksum_valid r \<longrightarrow>
                  confidence r < confidence b
                  \<or> (confidence r = confidence b
                      \<and> compression_ratio r \<le> compression_ratio b))"
    if "\<exists>r\<in>set (results rep). success r \<and> checksum_valid r"
  proof -
    from that have "filter qualifies ?rs \<noteq> []"
      unfolding rs qualifies_def by (simp add: filter_empty_conv)
    then obtain q qs where q: "filter qualifies ?rs = q # qs"
      by (cases "filter qualifies ?rs") auto
    let ?b = "max_loop q qs"
    have best: "best_method rep = Some (method_tag ?b) \<and> best_ratio rep = compression_ratio ?b
                \<and> best_confidence rep = confidence ?b"
      using q by (simp add: rep_def analyze_file_def Let_def qualifies_def)
    from max_loop_decomp [of q qs] obtain qpre qpost where d: "q # qs = qpre @ ?b # qpost"
      and lo: "\<forall>r\<in>set qpre. tuple_greater (selection_key ?b) (selection_key r)"
      and hi: "\<forall>r\<in>set qpost. \<not> tuple_greater (selection_key r) (selection_key ?b)"
      by blast
    from filter_decomp [of qualifies ?rs qpre ?b qpost] q d
    obtain pre post where p: "?rs = pre @ ?b # post" and pb: "qualifies ?b"
      and fpre: "filter qualifies pre = qpre" and fpost: "filter qualifies post = qpost"
      by auto
    have l: "\<forall>r\<in>set pre. success r \<and> checksum_valid r \<longrightarrow>
               confidence r < confidence ?b
               \<or> (confidence r = confidence ?b \<and> compression_ratio r < compression_ratio ?b)"
    proof (intro ballI impI)
      fix r assume "r \<in> set pre" "success r \<and> checksum_valid r"
      then have "r \<in> set qpre" using fpre by (auto simp: qualifies_def)
      with lo have "tuple_greater (selection_key ?b) (selection_key r)" by blast
      then show "confidence r < confidence ?b
               \<or> (confidence r = confidence ?b \<and> compression_ratio r < compression_ratio ?b)"
        by (auto simp: tuple_greater_def selection_key_def)
    qed
    have h: "\<forall>r\<in>set post. success r \<and> checksum_valid r \<longrightarrow>
               confidence r < confidence ?b
               \<or> (confidence r = confidence ?b \<and> compression_ratio r \<le> compression_ratio ?b)"
    proof (intro ballI impI)
      fix r assume "r \<in> set post" "success r \<and> checksum_valid r"
      then have "r \<in> set qpost" using fpost by (auto simp: qualifies_def)
      with hi have "\<not> tuple_greater (selection_key r) (selection_key ?b)" by blast
      then show "confidence r < confidence ?b
               \<or> (confidence r = confidence ?b \<and> compression_ratio r \<le> compression_ratio ?b)"
        by (auto simp: tuple_greater_def selection_key_def not_less)
    qed
    from pb have "success ?b \<and> checksum_valid ?b" by (simp add: qualifies_def)
    with p best l h show ?thesis unfolding rs by blast
  qed
  from c1 c2 c3 show ?thesis by blast
qed

theorem best_selection_witness:
  "(let rep = analyze_file exact_ops ''sample.bin'' [0xF0, 1, 1, 2, 2, 0, 0, 0xF0]
                [(''lzw'', decompress_lzw), (''huffman_simple'', decompress_huffman_simple),
                 (''lz77'', \<lambda>d. Inr (decompress_lz77 d))];
        tie = analyze_file exact_ops ''sample.bin'' [1, 2]
                [(''delta'', \<lambda>d. Inr (decompress_delta d)), (''lzw'', decompress_lzw)];
        none = analyze_file exact_ops ''sample.bin'' []
                [(''delta'', \<lambda>d. Inr (decompress_delta d)), (''lzw'', decompress_lzw)]
    in map method_tag (results rep) = [''lzw'', ''huffman_simple'', ''lz77'']
       \<and> success (results rep ! 0) \<and> checksum_valid (results rep ! 0)
       \<and> \<not> success (results rep ! 1)
       \<and> success (results rep ! 2) \<and> checksum_valid (results rep ! 2)
       \<and> confidence (results rep ! 0) < confidence (results rep ! 2)
       \<and> best_method rep = Some ''lz77''
       \<and> best_ratio rep = 1 / 2 \<and> best_confidence rep = 35 / 100
       \<and> success (results tie ! 0) \<and> checksum_valid (results tie ! 0)
       \<and> success (results tie ! 1) \<and> checksum_valid (results tie ! 1)
       \<and> confidence (results tie ! 0) = confidence (results tie ! 1)
       \<and> compression_ratio (results tie ! 0) = compression_ratio (results tie ! 1)
       \<and> best_method tie = Some ''delta''
       \<and> filter (\<lambda>r. success r \<and> checksum_valid r) (results none) = []
       \<and> best_method none = None \<and> best_ratio none = 0 \<and> best_confidence none = 0)"
proof -
  define blob :: blob where "blob = [0xF0, 1, 1, 2, 2, 0, 0, 0xF0]"
  define reg :: "(string \<times> (blob \<Rightarrow> error + blob)) list"
    where "reg = [(''lzw'', decompress_lzw), (''huffman_simple'', decompress_huffman_simple),
                  (''lz77'', \<lambda>d. Inr (decompress_lz77 d))]"
  define reg2 :: "(string \<times> (blob \<Rightarrow> error + blob)) list"
    where "reg2 = [(''delta'', \<lambda>d. Inr (decompress_delta d)), (''lzw'', decompress_lzw)]"
  define rep where "rep = analyze_file exact_ops ''sample.bin'' blob reg"
  define tie where "tie = analyze_file exact_ops ''sample.bin'' [1, 2] reg2"
  define none where "none = analyze_file exact_ops ''sample.bin'' [] reg2"
  define o1 where "o1 = test_decompression exact_ops blob ''lzw'' decompress_lzw"
  define o2 where "o2 = test_decompression exact_ops blob ''huffman_simple''
                          decompress_huffman_simple"
  define o3 where "o3 = test_decompression exact_ops blob ''lz77''
                          (\<lambda>d. Inr (decompress_lz77 d))"
  define t1 where "t1 = test_decompression exact_ops [1, 2] ''delta''
                          (\<lambda>d. Inr (decompress_delta d))"
  define t2 where "t2 = test_decompression exact_ops [1, 2] ''lzw'' decompress_lzw"
  have f1: "success o1" "checksum_valid o1" "confidence o1 = 2 / 10" "method_tag o1 = ''lzw''"
    unfolding o1_def blob_def outcome_lzw_sample by simp_all
  have f2: "\<not> success o2" "method_tag o2 = ''huffman_simple''"
    unfolding o2_def blob_def outcome_huffman_simple_sample by simp_all
  have f3: "success o3" "checksum_valid o3" "confidence o3 = 35 / 100"
    "compression_ratio o3 = 1 / 2" "method_tag o3 = ''lz77''"
    unfolding o3_def blob_def outcome_lz77_sample by simp_all
  have g1: "success t1" "checksum_valid t1" "confidence t1 = 2 / 10"
    "compression_ratio t1 = 1" "method_tag t1 = ''delta''"
    unfolding t1_def outcome_delta_12 by simp_all
  have g2: "success t2" "checksum_valid t2" "confidence t2 = 2 / 10"
    "compression_ratio t2 = 1" "method_tag t2 = ''lzw''"
    unfolding t2_def outcome_lzw_12 by simp_all
  have rs: "results rep = [o1, o2, o3]"
    by (simp add: rep_def reg_def analyze_file_def Let_def o1_def o2_def o3_def)
  have ts: "results tie = [t1, t2]"
    by (simp add: tie_def reg2_def analyze_file_def Let_def t1_def t2_def)
  have ns: "filter (\<lambda>r. success r \<and> checksum_valid r) (results none) = []"
    by (simp add: none_def reg2_def analyze_file_def Let_def test_decompression_def
          decompress_lzw_def decompress_delta_def validate_decompressed_data_def)
  \<comment> \<open>the blob with two qualifying outcomes: the later one has the greater confidence\<close>
  have "\<exists>r\<in>set (results rep). success r \<and> checksum_valid r"
    unfolding rs using f1 by simp
  with best_selection [of exact_ops "''sample.bin''" blob reg]
  obtain pre b post where d: "results rep = pre @ b # post"
    and qb: "success b \<and> checksum_valid b"
    and bf: "best_method rep = Some (method_tag b)" "best_ratio rep = compression_ratio b"
            "best_confidence rep = confidence b"
    and hi: "\<forall>r\<in>set post. success r \<and> checksum_valid r \<longrightarrow>
               confidence r < confidence b
               \<or> (confidence r = confidence b \<and> compression_ratio r \<le> compression_ratio b)"
    unfolding rep_def by blast
  from d consider "b = o1 \<and> post = [o2, o3]" | "b = o2" | "b = o3"
    unfolding rs by (auto simp: Cons_eq_append_conv)
  then have b: "b = o3"
  proof cases
    case 1
    then have "o3 \<in> set post" by simp
    with hi f3(1,2) have "confidence o3 < confidence b
                     \<or> (confidence o3 = confidence b \<and> compression_ratio o3 \<le> compression_ratio b)"
      by blast
    with 1 f1(3) f3(3) show ?thesis by simp
  next
    case 2
    with qb f2 show ?thesis by simp
  next
    case 3
    then show ?thesis .
  qed
  have A: "best_method rep = Some ''lz77''" "best_ratio rep = 1 / 2"
    "best_confidence rep = 35 / 100"
    using bf f3 unfolding b by simp_all
  \<comment> \<open>two outcomes with equal keys: the earlier one is reported\<close>
  have "\<exists>r\<in>set (results tie). success r \<and> checksum_valid r"
    unfolding ts using g1 by simp
  with best_selection [of exact_ops "''sample.bin''" "[1, 2]" reg2]
  obtain pre' b' post' where d': "results tie = pre' @ b' # post'"
    and bf': "best_method tie = Some (method_tag b')"
    and lo': "\<forall>r\<in>set pre'. success r \<and> checksum_valid r \<longrightarrow>
               confidence r < confidence b'
               \<or> (confidence r = confidence b' \<and> compression_ratio r < compression_ratio b')"
    unfolding tie_def by blast
  from d' consider "b' = t1" | "b' = t2 \<and> pre' = [t1]"
    unfolding ts by (auto simp: Cons_eq_append_conv)
  then have b': "b' = t1"
  proof cases
    case 1
    then show ?thesis .
  next
    case 2
    then have "t1 \<in> set pre'" by simp
    with lo' g1(1,2) have "confidence t1 < confidence b'
                      \<or> (confidence t1 = confidence b' \<and> compression_ratio t1 < compression_ratio b')"
      by blast
    with 2 g1(3,4) g2(3,4) show ?thesis by simp
  qed
  have C: "best_method tie = Some ''delta''"
    using bf' g1 unfolding b' by simp
  \<comment> \<open>no qualifying outcome\<close>
  from ns have "\<forall>r\<in>set (results none). \<not> (success r \<and> checksum_valid r)"
    by (simp add: filter_empty_conv)
  with best_selection [of exact_ops "''sample.bin''" "[]" reg2]
  have N: "best_method none = None \<and> best_ratio none = 0 \<and> best_confidence none = 0"
    unfolding none_def by blast
  have "map method_tag (results rep) = [''lzw'', ''huffman_simple'', ''lz77'']"
    unfolding rs using f1 f2 f3 by simp
  with f1 f2 f3 g1 g2 A C N ns rs ts
  have "map method_tag (results rep) = [''lzw'', ''huffman_simple'', ''lz77'']
       \<and> success (results rep ! 0) \<and> checksum_valid (results rep ! 0)
       \<and> \<not> success (results rep ! 1)
       \<and> success (results rep ! 2) \<and> checksum_valid (results rep ! 2)
       \<and> confidence (results rep ! 0) < confidence (results rep ! 2)
       \<and> best_method rep = Some ''lz77''
       \<and> best_ratio rep = 1 / 2 \<and> best_confidence rep = 35 / 100
       \<and> success (results tie ! 0) \<and> checksum_valid (results tie ! 0)
       \<and> success (results tie ! 1) \<and> checksum_valid (results tie ! 1)
       \<and> confidence (results tie ! 0) = confidence (results tie ! 1)
       \<and> compression_ratio (results tie ! 0) = compression_ratio (results tie ! 1)
       \<and> best_method tie = Some ''delta''
       \<and> filter (\<lambda>r. success r \<and> checksum_valid r) (results none) = []
       \<and> best_method none = None \<and> best_ratio none = 0 \<and> best_confidence none = 0"
    by simp
  then show ?thesis
    unfolding Let_def rep_def tie_def none_def blob_def reg_def reg2_def .
qed

subsection \<open>Minimum lengths of the Huffman decoders\<close>

text \<open>
  C5, as stated, fails for the standard variant: the four bytes \<open>01 01 00 00\<close> are
  shorter than 16 bytes, and the standard decoder does not fail; it decodes nine
  symbols.
\<close>

theorem huffman_too_short_counterexample:
  "length [1, 1, 0, 0 :: byte] < 16
   \<and> decompress_huffman_standard [1, 1, 0, 0] = Inr [0, 0, 0, 0, 0, 0, 0, 0, 0]"
  by code_simp

text \<open>
  C5, amended. Each of the three Huffman decoder variants fails with its
  ``too short'' error exactly when the input is shorter than the minimum it checks:
  4 bytes for the standard variant, 2 bytes for the canonical variant, 512 bytes for
  the simple variant. The 16-byte minimum is that of the auto-detecting decoder
  \<open>decompress_huffman\<close>, which fails with its own ``too short'' error exactly below
  16 bytes.
\<close>

theorem huffman_too_short_thresholds:
  "(decompress_huffman_standard data = Inl (ValueError ''Too short for standard Huffman'')
      \<longleftrightarrow> length data < 4)
   \<and> (decompress_huffman_canonical data = Inl (ValueError ''Too short for canonical Huffman'')
      \<longleftrightarrow> length data < 2)
   \<and> (decompress_huffman_simple data = Inl (ValueError ''Too short for simple Huffman'')
      \<longleftrightarrow> length data < 512)
   \<and> (decompress_huffman data = Inl (ValueError ''Data too short for Huffman compression'')
      \<longleftrightarrow> length data < 16)"
proof -
  have a: "decompress_huffman_standard data = Inl (ValueError ''Too short for standard Huffman'')
      \<longleftrightarrow> length data < 4"
    by (auto simp: decompress_huffman_standard_def Let_def
          dest!: huffman_decode_loop_error split: if_splits)
  have b: "decompress_huffman_canonical data = Inl (ValueError ''Too short for canonical Huffman'')
      \<longleftrightarrow> length data < 2"
    by (auto simp: decompress_huffman_canonical_def Let_def
          dest!: huffman_decode_loop_error split: if_splits)
  have c: "decompress_huffman_simple data = Inl (ValueError ''Too short for simple Huffman'')
      \<longleftrightarrow> length data < 512"
    by (auto simp: decompress_huffman_simple_def Let_def
          dest!: huffman_decode_loop_error split: if_splits)
  have d: "decompress_huffman data = Inl (ValueError ''Data too short for Huffman compression'')
      \<longleftrightarrow> length data < 16"
  proof (cases "length data < 16")
    case True
    then show ?thesis by (simp add: decompress_huffman_def)
  next
    case False
    then have "decompress_huffman data
                 = huffman_try_formats [decompress_huffman_canonical,
                     decompress_huffman_standard, decompress_huffman_simple] data"
      by (simp add: decompress_huffman_def)
    with False show ?thesis
      using huffman_try_formats_error
        [of "[decompress_huffman_canonical, decompress_huffman_standard,
              decompress_huffman_simple]" data
            "ValueError ''Data too short for Huffman compression''"]
      by auto
  qed
  from a b c d show ?thesis by blast
qed

end
